theory Spec2Isabelle
  imports Complex_Main
begin

section \<open>Data model\<close>

text \<open>
  The package under verification is \<^verbatim>\<open>prometheus.go\<close>: wrappers that decorate the client,
  handler, publish and subscribe paths of a micro-service framework with Prometheus
  metrics.  Go values are modelled as follows.

  \<^item> \<^verbatim>\<open>context.Context\<close> is an opaque token; \<^verbatim>\<open>context.Background()\<close> is one of its values.
  \<^item> \<^verbatim>\<open>Options\<close> is a record, an \<^verbatim>\<open>Option\<close> (a \<^verbatim>\<open>func(*Options)\<close>) a function on it.
  \<^item> A nullable pointer or a nil-able function or interface value is an \<open>option\<close>.
  \<^item> An \<^verbatim>\<open>error\<close> is \<open>None\<close> (nil) or \<open>Some\<close> message.
\<close>

datatype ctx = Background | Derived nat

record Options =
  Name :: string
  Version :: string
  ID :: string
  Context :: ctx

type_synonym Option = "Options \<Rightarrow> Options"

type_synonym error = "string option"

text \<open>
  The four option constructors.  The Go function \<^verbatim>\<open>Context\<close> shares its name with the
  field it sets; the function is called \<open>Context_option\<close> here.
\<close>

definition Context_option :: "ctx \<Rightarrow> Option" where
  "Context_option c = (\<lambda>options. options\<lparr>Context := c\<rparr>)"

definition ServiceName :: "string \<Rightarrow> Option" where
  "ServiceName name = (\<lambda>options. options\<lparr>Name := name\<rparr>)"

definition ServiceVersion :: "string \<Rightarrow> Option" where
  "ServiceVersion version = (\<lambda>options. options\<lparr>Version := version\<rparr>)"

definition ServiceID :: "string \<Rightarrow> Option" where
  "ServiceID i = (\<lambda>options. options\<lparr>ID := i\<rparr>)"

text \<open>
  \<^verbatim>\<open>options := Options{Context: context.Background()}; for _, o := range opts { o(&options) }\<close>:
  the zero value of a Go string is the empty string, and the options are applied
  from left to right.
\<close>

definition apply_options :: "Option list \<Rightarrow> Options" where
  "apply_options opts =
     foldl (\<lambda>options opt. opt options)
       \<lparr>Name = '''', Version = '''', ID = '''', Context = Background\<rparr> opts"

subsection \<open>Metric vectors and the package state\<close>

text \<open>
  A \<^verbatim>\<open>*prometheus.CounterVec\<close>, \<^verbatim>\<open>*prometheus.SummaryVec\<close> or
  \<^verbatim>\<open>*prometheus.HistogramVec\<close> object: what it was constructed with, the identity \<open>oid\<close>
  of the object (its position in the order of construction), how often each label tuple
  was incremented and which values were observed under each label tuple, in order.
  The type \<open>'f\<close> stands for \<^verbatim>\<open>float64\<close>.
\<close>

datatype vec_kind = CounterVec | SummaryVec | HistogramVec

record 'f vec =
  kind :: vec_kind
  oid :: nat
  opts_Name :: string
  opts_Help :: string
  labelNames :: "string list"
  counts :: "string list \<Rightarrow> nat"
  observed :: "string list \<Rightarrow> 'f list"

text \<open>The twelve package-level metric variables.\<close>

datatype gvar =
    clientOpsCounter | clientTimeCounterSummary | clientTimeCounterHistogram
  | serverOpsCounter | serverTimeCounterSummary | serverTimeCounterHistogram
  | publishOpsCounter | publishTimeCounterSummary | publishTimeCounterHistogram
  | subscribeOpsCounter | subscribeTimeCounterSummary | subscribeTimeCounterHistogram

text \<open>
  The state a call of the package reads and writes: the two exported prefix variables,
  the twelve metric variables (\<open>None\<close> is nil), the names of the vector objects
  constructed so far, and the world outside the package (the Prometheus default
  registry, the clock, response slots, the network), of type \<open>'x\<close>.
  The mutex \<^verbatim>\<open>mu\<close> is free whenever a sequential call starts and returns; it is part of
  the interleaving model further down.
\<close>

record ('f, 'x) state =
  DefaultMetricPrefix :: string
  DefaultLabelPrefix :: string
  vars :: "gvar \<Rightarrow> 'f vec option"
  allocs :: "string list"
  world :: 'x

subsection \<open>The consumed capabilities\<close>

text \<open>
  \<^verbatim>\<open>prometheus.DefaultRegisterer.Register\<close> answers nil, an
  \<^verbatim>\<open>AlreadyRegisteredError\<close> or another error (with its \<^verbatim>\<open>Error()\<close> text).
\<close>

datatype reg_error = AlreadyRegisteredError | OtherError string

text \<open>
  The metrics backend, the clock and \<^verbatim>\<open>float64\<close> arithmetic are not code of the package;
  they are parameters of the model.
  \<^item> \<open>Register\<close> is \<^verbatim>\<open>prometheus.DefaultRegisterer.Register\<close>: it receives the collector (a
    possibly nil pointer) and acts on the world.
  \<^item> \<open>Now\<close> is the time \<^verbatim>\<open>prometheus.NewTimer\<close> notes; \<open>Seconds_since\<close> is
    \<^verbatim>\<open>time.Since(begin).Seconds()\<close> as \<^verbatim>\<open>ObserveDuration\<close> computes it.
  \<^item> \<open>fmul\<close> is multiplication of \<^verbatim>\<open>float64\<close>, \<open>fconst\<close> the conversion of an integer
    constant of the source to \<^verbatim>\<open>float64\<close>.
\<close>

record ('f, 't, 'x) backend =
  Register :: "'x \<Rightarrow> 'f vec option \<Rightarrow> reg_error option \<times> 'x"
  Now :: "'x \<Rightarrow> 't"
  Seconds_since :: "'t \<Rightarrow> 'x \<Rightarrow> 'f"
  fmul :: "'f \<Rightarrow> 'f \<Rightarrow> 'f"
  fconst :: "int \<Rightarrow> 'f"

text \<open>
  Modelled from the spec: \<^verbatim>\<open>logger.Fatal\<close> belongs to the logging framework, which is not
  among the sources.  The spec says of it that it "terminates the process immediately";
  a call of it ends the run with the value \<open>Fatal c msg\<close>, the context and the text
  it was given.
\<close>

datatype exit = Fatal ctx string

section \<open>Registration\<close>

text \<open>
  \<^verbatim>\<open>prometheus.NewCounterVec(prometheus.CounterOpts{Name: n, Help: h}, labels)\<close> and its
  two siblings; \<open>i\<close> is the identity the new object gets.
\<close>

definition NewCounterVec :: "string \<Rightarrow> string \<Rightarrow> string list \<Rightarrow> nat \<Rightarrow> 'f vec" where
  "NewCounterVec n h labels i =
     \<lparr>kind = CounterVec, oid = i, opts_Name = n, opts_Help = h, labelNames = labels,
      counts = (\<lambda>lvs. 0), observed = (\<lambda>lvs. [])\<rparr>"

definition NewSummaryVec :: "string \<Rightarrow> string \<Rightarrow> string list \<Rightarrow> nat \<Rightarrow> 'f vec" where
  "NewSummaryVec n h labels i =
     \<lparr>kind = SummaryVec, oid = i, opts_Name = n, opts_Help = h, labelNames = labels,
      counts = (\<lambda>lvs. 0), observed = (\<lambda>lvs. [])\<rparr>"

definition NewHistogramVec :: "string \<Rightarrow> string \<Rightarrow> string list \<Rightarrow> nat \<Rightarrow> 'f vec" where
  "NewHistogramVec n h labels i =
     \<lparr>kind = HistogramVec, oid = i, opts_Name = n, opts_Help = h, labelNames = labels,
      counts = (\<lambda>lvs. 0), observed = (\<lambda>lvs. [])\<rparr>"

text \<open>
  \<^verbatim>\<open>x = prometheus.NewXVec(...)\<close>: the constructor is given the next free identity, the
  variable \<open>x\<close> is set to the new object, and the construction is noted.
\<close>

definition assign_new :: "gvar \<Rightarrow> (nat \<Rightarrow> 'f vec) \<Rightarrow> ('f, 'x) state \<Rightarrow> ('f, 'x) state" where
  "assign_new x new s =
     s\<lparr>vars := (vars s)(x \<mapsto> new (length (allocs s))),
       allocs := allocs s @ [opts_Name (new (length (allocs s)))]\<rparr>"

text \<open>
  The loop over the collectors:
  \<^verbatim>\<open>if err := Register(collector); err != nil { if _, ok := err.(AlreadyRegisteredError); !ok { logger.Fatal(ctx, err.Error()) } }\<close>.
\<close>

fun register_collectors ::
  "('f, 't, 'x) backend \<Rightarrow> ctx \<Rightarrow> 'f vec option list \<Rightarrow> ('f, 'x) state \<Rightarrow> exit + ('f, 'x) state"
where
  "register_collectors B c [] s = Inr s"
| "register_collectors B c (collector # rest) s =
     (case Register B (world s) collector of
        (None, w) \<Rightarrow> register_collectors B c rest (s\<lparr>world := w\<rparr>)
      | (Some err, w) \<Rightarrow>
          (case err of
             AlreadyRegisteredError \<Rightarrow> register_collectors B c rest (s\<lparr>world := w\<rparr>)
           | OtherError msg \<Rightarrow> Inl (Fatal c msg)))"

definition registerServerMetrics ::
  "('f, 't, 'x) backend \<Rightarrow> ctx \<Rightarrow> ('f, 'x) state \<Rightarrow> exit + ('f, 'x) state"
where
  "registerServerMetrics B c s0 =
    (let s1 = (if vars s0 serverOpsCounter = None
               then assign_new serverOpsCounter
                 (NewCounterVec (DefaultMetricPrefix s0 @ ''server_request_total'')
                    ''Requests processed, partitioned by endpoint and status''
                    [DefaultLabelPrefix s0 @ ''name'', DefaultLabelPrefix s0 @ ''version'',
                     DefaultLabelPrefix s0 @ ''id'', DefaultLabelPrefix s0 @ ''endpoint'',
                     DefaultLabelPrefix s0 @ ''status'']) s0
               else s0);
         s2 = (if vars s1 serverTimeCounterSummary = None
               then assign_new serverTimeCounterSummary
                 (NewSummaryVec (DefaultMetricPrefix s1 @ ''server_latency_microseconds'')
                    ''Request latencies in microseconds, partitioned by endpoint''
                    [DefaultLabelPrefix s1 @ ''name'', DefaultLabelPrefix s1 @ ''version'',
                     DefaultLabelPrefix s1 @ ''id'', DefaultLabelPrefix s1 @ ''endpoint'']) s1
               else s1);
         s3 = (if vars s2 serverTimeCounterHistogram = None
               then assign_new serverTimeCounterHistogram
                 (NewHistogramVec (DefaultMetricPrefix s2 @ ''server_request_duration_seconds'')
                    ''Request time in seconds, partitioned by endpoint''
                    [DefaultLabelPrefix s2 @ ''name'', DefaultLabelPrefix s2 @ ''version'',
                     DefaultLabelPrefix s2 @ ''id'', DefaultLabelPrefix s2 @ ''endpoint'']) s2
               else s2)
     in register_collectors B c
          [vars s3 serverOpsCounter, vars s3 serverTimeCounterSummary,
           vars s3 serverTimeCounterHistogram] s3)"

definition registerPublishMetrics ::
  "('f, 't, 'x) backend \<Rightarrow> ctx \<Rightarrow> ('f, 'x) state \<Rightarrow> exit + ('f, 'x) state"
where
  "registerPublishMetrics B c s0 =
    (let s1 = (if vars s0 publishOpsCounter = None
               then assign_new publishOpsCounter
                 (NewCounterVec (DefaultMetricPrefix s0 @ ''publish_message_total'')
                    ''Messages sent, partitioned by endpoint and status''
                    [DefaultLabelPrefix s0 @ ''name'', DefaultLabelPrefix s0 @ ''version'',
                     DefaultLabelPrefix s0 @ ''id'', DefaultLabelPrefix s0 @ ''endpoint'',
                     DefaultLabelPrefix s0 @ ''status'']) s0
               else s0);
         s2 = (if vars s1 publishTimeCounterSummary = None
               then assign_new publishTimeCounterSummary
                 (NewSummaryVec (DefaultMetricPrefix s1 @ ''publish_message_latency_microseconds'')
                    ''Message latencies in microseconds, partitioned by endpoint''
                    [DefaultLabelPrefix s1 @ ''name'', DefaultLabelPrefix s1 @ ''version'',
                     DefaultLabelPrefix s1 @ ''id'', DefaultLabelPrefix s1 @ ''endpoint'']) s1
               else s1);
         s3 = (if vars s2 publishTimeCounterHistogram = None
               then assign_new publishTimeCounterHistogram
                 (NewHistogramVec (DefaultMetricPrefix s2 @ ''publish_message_duration_seconds'')
                    ''Message publish time in seconds, partitioned by endpoint''
                    [DefaultLabelPrefix s2 @ ''name'', DefaultLabelPrefix s2 @ ''version'',
                     DefaultLabelPrefix s2 @ ''id'', DefaultLabelPrefix s2 @ ''endpoint'']) s2
               else s2)
     in register_collectors B c
          [vars s3 publishOpsCounter, vars s3 publishTimeCounterSummary,
           vars s3 publishTimeCounterHistogram] s3)"

definition registerSubscribeMetrics ::
  "('f, 't, 'x) backend \<Rightarrow> ctx \<Rightarrow> ('f, 'x) state \<Rightarrow> exit + ('f, 'x) state"
where
  "registerSubscribeMetrics B c s0 =
    (let s1 = (if vars s0 subscribeOpsCounter = None
               then assign_new subscribeOpsCounter
                 (NewCounterVec (DefaultMetricPrefix s0 @ ''subscribe_message_total'')
                    ''Messages processed, partitioned by endpoint and status''
                    [DefaultLabelPrefix s0 @ ''name'', DefaultLabelPrefix s0 @ ''version'',
                     DefaultLabelPrefix s0 @ ''id'', DefaultLabelPrefix s0 @ ''endpoint'',
                     DefaultLabelPrefix s0 @ ''status'']) s0
               else s0);
         s2 = (if vars s1 subscribeTimeCounterSummary = None
               then assign_new subscribeTimeCounterSummary
                 (NewSummaryVec (DefaultMetricPrefix s1 @ ''subscribe_message_latency_microseconds'')
                    ''Message processing latencies in microseconds, partitioned by endpoint''
                    [DefaultLabelPrefix s1 @ ''name'', DefaultLabelPrefix s1 @ ''version'',
                     DefaultLabelPrefix s1 @ ''id'', DefaultLabelPrefix s1 @ ''endpoint'']) s1
               else s1);
         s3 = (if vars s2 subscribeTimeCounterHistogram = None
               then assign_new subscribeTimeCounterHistogram
                 (NewHistogramVec (DefaultMetricPrefix s2 @ ''subscribe_message_duration_seconds'')
                    ''Request time in seconds, partitioned by endpoint''
                    [DefaultLabelPrefix s2 @ ''name'', DefaultLabelPrefix s2 @ ''version'',
                     DefaultLabelPrefix s2 @ ''id'', DefaultLabelPrefix s2 @ ''endpoint'']) s2
               else s2)
     in register_collectors B c
          [vars s3 subscribeOpsCounter, vars s3 subscribeTimeCounterSummary,
           vars s3 subscribeTimeCounterHistogram] s3)"

definition registerClientMetrics ::
  "('f, 't, 'x) backend \<Rightarrow> ctx \<Rightarrow> ('f, 'x) state \<Rightarrow> exit + ('f, 'x) state"
where
  "registerClientMetrics B c s0 =
    (let s1 = (if vars s0 clientOpsCounter = None
               then assign_new clientOpsCounter
                 (NewCounterVec (DefaultMetricPrefix s0 @ ''request_total'')
                    ''Requests processed, partitioned by endpoint and status''
                    [DefaultLabelPrefix s0 @ ''name'', DefaultLabelPrefix s0 @ ''version'',
                     DefaultLabelPrefix s0 @ ''id'', DefaultLabelPrefix s0 @ ''endpoint'',
                     DefaultLabelPrefix s0 @ ''status'']) s0
               else s0);
         s2 = (if vars s1 clientTimeCounterSummary = None
               then assign_new clientTimeCounterSummary
                 (NewSummaryVec (DefaultMetricPrefix s1 @ ''latency_microseconds'')
                    ''Request latencies in microseconds, partitioned by endpoint''
                    [DefaultLabelPrefix s1 @ ''name'', DefaultLabelPrefix s1 @ ''version'',
                     DefaultLabelPrefix s1 @ ''id'', DefaultLabelPrefix s1 @ ''endpoint'']) s1
               else s1);
         s3 = (if vars s2 clientTimeCounterHistogram = None
               then assign_new clientTimeCounterHistogram
                 (NewHistogramVec (DefaultMetricPrefix s2 @ ''request_duration_seconds'')
                    ''Request time in seconds, partitioned by endpoint''
                    [DefaultLabelPrefix s2 @ ''name'', DefaultLabelPrefix s2 @ ''version'',
                     DefaultLabelPrefix s2 @ ''id'', DefaultLabelPrefix s2 @ ''endpoint'']) s2
               else s2)
     in register_collectors B c
          [vars s3 clientOpsCounter, vars s3 clientTimeCounterSummary,
           vars s3 clientTimeCounterHistogram] s3)"

section \<open>Wrapper construction and the decorated operations\<close>

subsection \<open>Calls, panics and deferred functions\<close>

text \<open>
  A Go call either returns or panics.  A panic raised by the package itself is the
  dereference of a nil pointer (a metric variable that was never registered, a nil
  function or interface value); the metrics library panics when it is handed a label
  value that is not valid UTF-8, with an error that quotes the value; a panic of a
  wrapped operation carries its own value.
  A call is a function from the state before it to its outcome and the state after it.
\<close>

datatype panic = NilDereference | InvalidLabelValue string | PanicValue string

datatype 'a outcome = Return 'a | Panic panic

type_synonym ('a, 'f, 'x) call = "('f, 'x) state \<Rightarrow> 'a outcome \<times> ('f, 'x) state"

text \<open>Sequencing: the second statement runs only if the first returns.\<close>

definition seq :: "('a, 'f, 'x) call \<Rightarrow> ('a \<Rightarrow> ('b, 'f, 'x) call) \<Rightarrow> ('b, 'f, 'x) call" where
  "seq m k s = (case m s of (Return a, s') \<Rightarrow> k a s' | (Panic p, s') \<Rightarrow> (Panic p, s'))"

definition ret :: "'a \<Rightarrow> ('a, 'f, 'x) call" where
  "ret a s = (Return a, s)"

text \<open>
  \<^verbatim>\<open>defer d(); body\<close>: the deferred call runs when the body has returned or panicked.  The
  function returns what the body returned, goes on panicking with the body's panic, or
  panics with the panic of the deferred call.
\<close>

definition with_deferred :: "(unit, 'f, 'x) call \<Rightarrow> ('a, 'f, 'x) call \<Rightarrow> ('a, 'f, 'x) call" where
  "with_deferred d body s =
     (case body s of (r, s1) \<Rightarrow>
        (case d s1 of (Return u, s2) \<Rightarrow> (r, s2) | (Panic p, s2) \<Rightarrow> (Panic p, s2)))"

subsection \<open>Observation\<close>

text \<open>
  A label value is accepted if it is valid UTF-8 (\<^verbatim>\<open>utf8.ValidString\<close> of the Go
  library).  A string is a sequence of bytes.  A byte below 0x80 stands for itself; a
  byte from 0xC2 to 0xDF starts a sequence of two bytes, one from 0xE0 to 0xEF a sequence
  of three, one from 0xF0 to 0xF4 a sequence of four, and no other byte starts a
  sequence.  The bytes after the first are from 0x80 to 0xBF; the second byte is confined
  further after 0xE0 (from 0xA0), 0xED (to 0x9F), 0xF0 (from 0x90) and 0xF4 (to 0x8F).
\<close>

definition byte_in :: "nat \<Rightarrow> nat \<Rightarrow> char \<Rightarrow> bool" where
  "byte_in lo hi b = (lo \<le> of_char b \<and> of_char b \<le> hi)"

text \<open>The number of bytes of the sequence at the head of a string, 0 if there is none.\<close>

definition rune_width :: "string \<Rightarrow> nat" where
  "rune_width s =
     (case s of
        [] \<Rightarrow> 0
      | b # bs \<Rightarrow>
         (if byte_in 0x00 0x7F b then 1
          else if byte_in 0xC2 0xDF b then
            (case bs of
               b1 # rest \<Rightarrow> if byte_in 0x80 0xBF b1 then 2 else 0
             | _ \<Rightarrow> 0)
          else if byte_in 0xE0 0xEF b then
            (case bs of
               b1 # b2 # rest \<Rightarrow>
                 if byte_in (if byte_in 0xE0 0xE0 b then 0xA0 else 0x80)
                            (if byte_in 0xED 0xED b then 0x9F else 0xBF) b1 \<and>
                    byte_in 0x80 0xBF b2
                 then 3 else 0
             | _ \<Rightarrow> 0)
          else if byte_in 0xF0 0xF4 b then
            (case bs of
               b1 # b2 # b3 # rest \<Rightarrow>
                 if byte_in (if byte_in 0xF0 0xF0 b then 0x90 else 0x80)
                            (if byte_in 0xF4 0xF4 b then 0x8F else 0xBF) b1 \<and>
                    byte_in 0x80 0xBF b2 \<and> byte_in 0x80 0xBF b3
                 then 4 else 0
             | _ \<Rightarrow> 0)
          else 0))"

fun ValidString :: "string \<Rightarrow> bool" where
  "ValidString [] = True"
| "ValidString (b # bs) =
     (0 < rune_width (b # bs) \<and> ValidString (drop (rune_width (b # bs) - 1) bs))"

text \<open>
  The check of the label values handed to a metric vector: they are looked at one after
  the other, and the first that is not valid UTF-8 is reported.
\<close>

definition validateLabelValues :: "string list \<Rightarrow> string option" where
  "validateLabelValues vals = find (\<lambda>val. \<not> ValidString val) vals"

text \<open>
  \<^verbatim>\<open>x.WithLabelValues(lvs...).Inc()\<close> and \<^verbatim>\<open>x.WithLabelValues(lvs...).Observe(v)\<close> on a metric
  variable \<open>x\<close>.  The method is called on the pointer the variable holds, which panics if
  it is nil; \<^verbatim>\<open>WithLabelValues\<close> panics if a label value is refused, and nothing is
  recorded then.  Every call of the package passes as many label values as the vector
  was constructed with label names.
\<close>

definition WithLabelValues_Inc :: "gvar \<Rightarrow> string list \<Rightarrow> (unit, 'f, 'x) call" where
  "WithLabelValues_Inc x lvs s =
     (case vars s x of
        None \<Rightarrow> (Panic NilDereference, s)
      | Some m \<Rightarrow>
          (case validateLabelValues lvs of
             Some val \<Rightarrow> (Panic (InvalidLabelValue val), s)
           | None \<Rightarrow>
               (Return (),
                s\<lparr>vars := (vars s)(x \<mapsto> m\<lparr>counts := (counts m)(lvs := counts m lvs + 1)\<rparr>)\<rparr>)))"

definition WithLabelValues_Observe :: "gvar \<Rightarrow> string list \<Rightarrow> 'f \<Rightarrow> (unit, 'f, 'x) call" where
  "WithLabelValues_Observe x lvs v s =
     (case vars s x of
        None \<Rightarrow> (Panic NilDereference, s)
      | Some m \<Rightarrow>
          (case validateLabelValues lvs of
             Some val \<Rightarrow> (Panic (InvalidLabelValue val), s)
           | None \<Rightarrow>
               (Return (),
                s\<lparr>vars := (vars s)(x \<mapsto> m\<lparr>observed := (observed m)(lvs := observed m lvs @ [v])\<rparr>)\<rparr>)))"

text \<open>
  \<^verbatim>\<open>prometheus.NewTimer(observer)\<close> notes the time; \<^verbatim>\<open>timer.ObserveDuration()\<close> hands the
  seconds elapsed since then to the observer.
\<close>

definition NewTimer :: "('f, 't, 'x) backend \<Rightarrow> ('f, 'x) state \<Rightarrow> 't" where
  "NewTimer B s = Now B (world s)"

definition ObserveDuration ::
  "('f, 't, 'x) backend \<Rightarrow> 't \<Rightarrow> ('f \<Rightarrow> (unit, 'f, 'x) call) \<Rightarrow> (unit, 'f, 'x) call"
where
  "ObserveDuration B timer observer s = observer (Seconds_since B timer (world s)) s"

subsection \<open>The framework's interfaces\<close>

text \<open>
  A request exposes a service name and an endpoint name, a message a topic.  Requests
  and messages are interface values: an operation is handed \<open>Some\<close> request or message, or
  nil, which is \<open>None\<close>, and a method called on nil panics.  Response slots, call and
  publish options, the option struct of a \<^verbatim>\<open>CallFunc\<close> and stream handles are opaque to
  the package, which only passes them on; they are tokens.
\<close>

record request =
  Service :: string
  Endpoint :: string

record message =
  Topic :: string

type_synonym rsp = nat
type_synonym call_option = nat
type_synonym call_options = nat
type_synonym publish_option = nat
type_synonym stream = nat

type_synonym ('f, 'x) call_func =
  "ctx \<Rightarrow> string \<Rightarrow> request option \<Rightarrow> rsp \<Rightarrow> call_options \<Rightarrow> (error, 'f, 'x) call"

type_synonym ('f, 'x) handler_func =
  "ctx \<Rightarrow> request option \<Rightarrow> rsp \<Rightarrow> (error, 'f, 'x) call"

type_synonym ('f, 'x) subscriber_func =
  "ctx \<Rightarrow> message option \<Rightarrow> (error, 'f, 'x) call"

record ('f, 'x) client =
  client_Call :: "ctx \<Rightarrow> request option \<Rightarrow> rsp \<Rightarrow> call_option list \<Rightarrow> (error, 'f, 'x) call"
  client_Stream :: "ctx \<Rightarrow> request option \<Rightarrow> call_option list \<Rightarrow> (stream \<times> error, 'f, 'x) call"
  client_Publish :: "ctx \<Rightarrow> message option \<Rightarrow> publish_option list \<Rightarrow> (error, 'f, 'x) call"

record ('f, 'x) wrapper =
  options :: Options
  callFunc :: "('f, 'x) call_func option"
  Client :: "('f, 'x) client option"

subsection \<open>The six decorated operations\<close>

definition CallFunc ::
  "('f, 't, 'x) backend \<Rightarrow> ('f, 'x) wrapper \<Rightarrow> ('f, 'x) call_func"
where
  "CallFunc B w c addr req rsp opts s =
    (case req of
       None \<Rightarrow> (Panic NilDereference, s)
     | Some rq \<Rightarrow>
          (let endpoint = Service rq @ ''.'' @ Endpoint rq;
               timer = NewTimer B s
           in with_deferred
                (ObserveDuration B timer (\<lambda>v.
                   let us = fmul B v (fconst B 1000000) in
                   seq (WithLabelValues_Observe clientTimeCounterSummary
                          [Name (options w), Version (options w), ID (options w), endpoint] us)
                     (\<lambda>u. WithLabelValues_Observe clientTimeCounterHistogram
                          [Name (options w), Version (options w), ID (options w), endpoint] v)))
                (seq (case callFunc w of
                        None \<Rightarrow> (\<lambda>s. (Panic NilDereference, s))
                      | Some fn \<Rightarrow> fn c addr req rsp opts)
                   (\<lambda>err.
                      seq (if err = None
                           then WithLabelValues_Inc clientOpsCounter
                                  [Name (options w), Version (options w), ID (options w), endpoint, ''success'']
                           else WithLabelValues_Inc clientOpsCounter
                                  [Name (options w), Version (options w), ID (options w), endpoint, ''failure''])
                        (\<lambda>u. ret err)))
                s))"

definition Call ::
  "('f, 't, 'x) backend \<Rightarrow> ('f, 'x) wrapper \<Rightarrow>
   ctx \<Rightarrow> request option \<Rightarrow> rsp \<Rightarrow> call_option list \<Rightarrow> (error, 'f, 'x) call"
where
  "Call B w c req rsp opts s =
    (case req of
       None \<Rightarrow> (Panic NilDereference, s)
     | Some rq \<Rightarrow>
          (let endpoint = Service rq @ ''.'' @ Endpoint rq;
               timer = NewTimer B s
           in with_deferred
                (ObserveDuration B timer (\<lambda>v.
                   let us = fmul B v (fconst B 1000000) in
                   seq (WithLabelValues_Observe clientTimeCounterSummary
                          [Name (options w), Version (options w), ID (options w), endpoint] us)
                     (\<lambda>u. WithLabelValues_Observe clientTimeCounterHistogram
                          [Name (options w), Version (options w), ID (options w), endpoint] v)))
                (seq (case Client w of
                        None \<Rightarrow> (\<lambda>s. (Panic NilDereference, s))
                      | Some cl \<Rightarrow> client_Call cl c req rsp opts)
                   (\<lambda>err.
                      seq (if err = None
                           then WithLabelValues_Inc clientOpsCounter
                                  [Name (options w), Version (options w), ID (options w), endpoint, ''success'']
                           else WithLabelValues_Inc clientOpsCounter
                                  [Name (options w), Version (options w), ID (options w), endpoint, ''failure''])
                        (\<lambda>u. ret err)))
                s))"

definition Stream ::
  "('f, 't, 'x) backend \<Rightarrow> ('f, 'x) wrapper \<Rightarrow>
   ctx \<Rightarrow> request option \<Rightarrow> call_option list \<Rightarrow> (stream \<times> error, 'f, 'x) call"
where
  "Stream B w c req opts s =
    (case req of
       None \<Rightarrow> (Panic NilDereference, s)
     | Some rq \<Rightarrow>
          (let endpoint = Service rq @ ''.'' @ Endpoint rq;
               timer = NewTimer B s
           in with_deferred
                (ObserveDuration B timer (\<lambda>v.
                   let us = fmul B v (fconst B 1000000) in
                   seq (WithLabelValues_Observe clientTimeCounterSummary
                          [Name (options w), Version (options w), ID (options w), endpoint] us)
                     (\<lambda>u. WithLabelValues_Observe clientTimeCounterHistogram
                          [Name (options w), Version (options w), ID (options w), endpoint] v)))
                (seq (case Client w of
                        None \<Rightarrow> (\<lambda>s. (Panic NilDereference, s))
                      | Some cl \<Rightarrow> client_Stream cl c req opts)
                   (\<lambda>(stream, err).
                      seq (if err = None
                           then WithLabelValues_Inc clientOpsCounter
                                  [Name (options w), Version (options w), ID (options w), endpoint, ''success'']
                           else WithLabelValues_Inc clientOpsCounter
                                  [Name (options w), Version (options w), ID (options w), endpoint, ''failure''])
                        (\<lambda>u. ret (stream, err))))
                s))"

definition Publish ::
  "('f, 't, 'x) backend \<Rightarrow> ('f, 'x) wrapper \<Rightarrow>
   ctx \<Rightarrow> message option \<Rightarrow> publish_option list \<Rightarrow> (error, 'f, 'x) call"
where
  "Publish B w c p opts s =
    (case p of
       None \<Rightarrow> (Panic NilDereference, s)
     | Some m \<Rightarrow>
          (let endpoint = Topic m;
               timer = NewTimer B s
           in with_deferred
                (ObserveDuration B timer (\<lambda>v.
                   let us = fmul B v (fconst B 1000000) in
                   seq (WithLabelValues_Observe publishTimeCounterSummary
                          [Name (options w), Version (options w), ID (options w), endpoint] us)
                     (\<lambda>u. WithLabelValues_Observe publishTimeCounterHistogram
                          [Name (options w), Version (options w), ID (options w), endpoint] v)))
                (seq (case Client w of
                        None \<Rightarrow> (\<lambda>s. (Panic NilDereference, s))
                      | Some cl \<Rightarrow> client_Publish cl c p opts)
                   (\<lambda>err.
                      seq (if err = None
                           then WithLabelValues_Inc publishOpsCounter
                                  [Name (options w), Version (options w), ID (options w), endpoint, ''success'']
                           else WithLabelValues_Inc publishOpsCounter
                                  [Name (options w), Version (options w), ID (options w), endpoint, ''failure''])
                        (\<lambda>u. ret err)))
                s))"

definition HandlerFunc ::
  "('f, 't, 'x) backend \<Rightarrow> ('f, 'x) wrapper \<Rightarrow>
   ('f, 'x) handler_func option \<Rightarrow> ('f, 'x) handler_func"
where
  "HandlerFunc B w fn c req rsp s =
    (case req of
       None \<Rightarrow> (Panic NilDereference, s)
     | Some rq \<Rightarrow>
          (let endpoint = Endpoint rq;
               timer = NewTimer B s
           in with_deferred
                (ObserveDuration B timer (\<lambda>v.
                   let us = fmul B v (fconst B 1000000) in
                   seq (WithLabelValues_Observe serverTimeCounterSummary
                          [Name (options w), Version (options w), ID (options w), endpoint] us)
                     (\<lambda>u. WithLabelValues_Observe serverTimeCounterHistogram
                          [Name (options w), Version (options w), ID (options w), endpoint] v)))
                (seq (case fn of
                        None \<Rightarrow> (\<lambda>s. (Panic NilDereference, s))
                      | Some f \<Rightarrow> f c req rsp)
                   (\<lambda>err.
                      seq (if err = None
                           then WithLabelValues_Inc serverOpsCounter
                                  [Name (options w), Version (options w), ID (options w), endpoint, ''success'']
                           else WithLabelValues_Inc serverOpsCounter
                                  [Name (options w), Version (options w), ID (options w), endpoint, ''failure''])
                        (\<lambda>u. ret err)))
                s))"

definition SubscriberFunc ::
  "('f, 't, 'x) backend \<Rightarrow> ('f, 'x) wrapper \<Rightarrow>
   ('f, 'x) subscriber_func option \<Rightarrow> ('f, 'x) subscriber_func"
where
  "SubscriberFunc B w fn c msg s =
    (case msg of
       None \<Rightarrow> (Panic NilDereference, s)
     | Some m \<Rightarrow>
          (let endpoint = Topic m;
               timer = NewTimer B s
           in with_deferred
                (ObserveDuration B timer (\<lambda>v.
                   let us = fmul B v (fconst B 1000000) in
                   seq (WithLabelValues_Observe subscribeTimeCounterSummary
                          [Name (options w), Version (options w), ID (options w), endpoint] us)
                     (\<lambda>u. WithLabelValues_Observe subscribeTimeCounterHistogram
                          [Name (options w), Version (options w), ID (options w), endpoint] v)))
                (seq (case fn of
                        None \<Rightarrow> (\<lambda>s. (Panic NilDereference, s))
                      | Some f \<Rightarrow> f c msg)
                   (\<lambda>err.
                      seq (if err = None
                           then WithLabelValues_Inc subscribeOpsCounter
                                  [Name (options w), Version (options w), ID (options w), endpoint, ''success'']
                           else WithLabelValues_Inc subscribeOpsCounter
                                  [Name (options w), Version (options w), ID (options w), endpoint, ''failure''])
                        (\<lambda>u. ret err)))
                s))"

subsection \<open>The constructors\<close>

text \<open>
  A constructor applies the options, registers, and returns a closure over the options;
  when a registration is fatal there is no return.  The closure of
  \<^verbatim>\<open>NewClientWrapper\<close> builds the wrapper struct around a client, that of
  \<^verbatim>\<open>NewCallWrapper\<close> returns the method value \<^verbatim>\<open>handler.CallFunc\<close>, and the other two
  constructors return the method values \<^verbatim>\<open>handler.HandlerFunc\<close> and
  \<^verbatim>\<open>handler.SubscriberFunc\<close> themselves.  A nil client or function handed to a closure is
  \<open>None\<close>.
\<close>

definition NewClientWrapper ::
  "('f, 't, 'x) backend \<Rightarrow> Option list \<Rightarrow> ('f, 'x) state \<Rightarrow>
   exit + (('f, 'x) client option \<Rightarrow> ('f, 'x) wrapper) \<times> ('f, 'x) state"
where
  "NewClientWrapper B opts s =
    (let options = apply_options opts in
     case registerClientMetrics B (Context options) s of
       Inl e \<Rightarrow> Inl e
     | Inr s1 \<Rightarrow>
        (case registerPublishMetrics B (Context options) s1 of
           Inl e \<Rightarrow> Inl e
         | Inr s2 \<Rightarrow>
            Inr (\<lambda>c. \<lparr>options = options, callFunc = None, Client = c\<rparr>, s2)))"

definition NewCallWrapper ::
  "('f, 't, 'x) backend \<Rightarrow> Option list \<Rightarrow> ('f, 'x) state \<Rightarrow>
   exit + (('f, 'x) call_func option \<Rightarrow> ('f, 'x) call_func) \<times> ('f, 'x) state"
where
  "NewCallWrapper B opts s =
    (let options = apply_options opts in
     case registerClientMetrics B (Context options) s of
       Inl e \<Rightarrow> Inl e
     | Inr s1 \<Rightarrow>
        Inr (\<lambda>fn. CallFunc B \<lparr>options = options, callFunc = fn, Client = None\<rparr>, s1))"

definition NewHandlerWrapper ::
  "('f, 't, 'x) backend \<Rightarrow> Option list \<Rightarrow> ('f, 'x) state \<Rightarrow>
   exit + (('f, 'x) handler_func option \<Rightarrow> ('f, 'x) handler_func) \<times> ('f, 'x) state"
where
  "NewHandlerWrapper B opts s =
    (let options = apply_options opts in
     case registerServerMetrics B (Context options) s of
       Inl e \<Rightarrow> Inl e
     | Inr s1 \<Rightarrow>
        Inr (HandlerFunc B \<lparr>options = options, callFunc = None, Client = None\<rparr>, s1))"

definition NewSubscriberWrapper ::
  "('f, 't, 'x) backend \<Rightarrow> Option list \<Rightarrow> ('f, 'x) state \<Rightarrow>
   exit + (('f, 'x) subscriber_func option \<Rightarrow> ('f, 'x) subscriber_func) \<times> ('f, 'x) state"
where
  "NewSubscriberWrapper B opts s =
    (let options = apply_options opts in
     case registerSubscribeMetrics B (Context options) s of
       Inl e \<Rightarrow> Inl e
     | Inr s1 \<Rightarrow>
        Inr (SubscriberFunc B \<lparr>options = options, callFunc = None, Client = None\<rparr>, s1))"

section \<open>The groups and the call shapes, uniformly\<close>

text \<open>
  The source repeats one registration function per group and one decoration per call
  shape.  To state a property once for all of them, the groups and the invocations are
  collected in datatypes, and the functions above are reached through them.
\<close>

datatype family_group = ClientGroup | ServerGroup | PublishGroup | SubscribeGroup

fun ops_counter :: "family_group \<Rightarrow> gvar" where
  "ops_counter ClientGroup = clientOpsCounter"
| "ops_counter ServerGroup = serverOpsCounter"
| "ops_counter PublishGroup = publishOpsCounter"
| "ops_counter SubscribeGroup = subscribeOpsCounter"

fun time_summary :: "family_group \<Rightarrow> gvar" where
  "time_summary ClientGroup = clientTimeCounterSummary"
| "time_summary ServerGroup = serverTimeCounterSummary"
| "time_summary PublishGroup = publishTimeCounterSummary"
| "time_summary SubscribeGroup = subscribeTimeCounterSummary"

fun time_histogram :: "family_group \<Rightarrow> gvar" where
  "time_histogram ClientGroup = clientTimeCounterHistogram"
| "time_histogram ServerGroup = serverTimeCounterHistogram"
| "time_histogram PublishGroup = publishTimeCounterHistogram"
| "time_histogram SubscribeGroup = subscribeTimeCounterHistogram"

fun register_metrics ::
  "family_group \<Rightarrow> ('f, 't, 'x) backend \<Rightarrow> ctx \<Rightarrow> ('f, 'x) state \<Rightarrow> exit + ('f, 'x) state"
where
  "register_metrics ClientGroup = registerClientMetrics"
| "register_metrics ServerGroup = registerServerMetrics"
| "register_metrics PublishGroup = registerPublishMetrics"
| "register_metrics SubscribeGroup = registerSubscribeMetrics"

text \<open>The three metric variables of a group are set.\<close>

definition registered :: "family_group \<Rightarrow> ('f, 'x) state \<Rightarrow> bool" where
  "registered g s =
     (vars s (ops_counter g) \<noteq> None \<and> vars s (time_summary g) \<noteq> None \<and>
      vars s (time_histogram g) \<noteq> None)"

text \<open>What a scrape would read: the count and the observed values under a label tuple.\<close>

definition counter_value :: "('f, 'x) state \<Rightarrow> gvar \<Rightarrow> string list \<Rightarrow> nat" where
  "counter_value s x lvs = (case vars s x of None \<Rightarrow> 0 | Some m \<Rightarrow> counts m lvs)"

definition observations :: "('f, 'x) state \<Rightarrow> gvar \<Rightarrow> string list \<Rightarrow> 'f list" where
  "observations s x lvs = (case vars s x of None \<Rightarrow> [] | Some m \<Rightarrow> observed m lvs)"

text \<open>
  An invocation of a decorated operation on a request or message that is not nil: the
  wrapper it belongs to, the wrapped function where the wrapper does not hold it, and
  the arguments.  (Handed nil for the request or message, an operation panics in its
  first statement; see \<open>nil_request_panics\<close> below.)
\<close>

datatype ('f, 'x) invocation =
    InvCallFunc "('f, 'x) wrapper" ctx string request rsp call_options
  | InvCall "('f, 'x) wrapper" ctx request rsp "call_option list"
  | InvStream "('f, 'x) wrapper" ctx request "call_option list"
  | InvPublish "('f, 'x) wrapper" ctx message "publish_option list"
  | InvHandler "('f, 'x) wrapper" "('f, 'x) handler_func option" ctx request rsp
  | InvSubscriber "('f, 'x) wrapper" "('f, 'x) subscriber_func option" ctx message

text \<open>What an operation returns: an error, or a stream handle and an error.\<close>

datatype result = ErrorResult error | StreamResult stream error

fun error_of :: "result \<Rightarrow> error" where
  "error_of (ErrorResult err) = err"
| "error_of (StreamResult st err) = err"

definition stream_result :: "stream \<times> error \<Rightarrow> result" where
  "stream_result r = StreamResult (fst r) (snd r)"

definition as_result :: "('a \<Rightarrow> result) \<Rightarrow> ('a, 'f, 'x) call \<Rightarrow> (result, 'f, 'x) call" where
  "as_result F m s = (case m s of (r, s') \<Rightarrow> (map_outcome F r, s'))"

text \<open>A call of a nil function or of a method of a nil interface value.\<close>

definition nil_call :: "('a, 'f, 'x) call" where
  "nil_call s = (Panic NilDereference, s)"

text \<open>The decorated operation of an invocation, and the operation it wraps.\<close>

fun decorated :: "('f, 't, 'x) backend \<Rightarrow> ('f, 'x) invocation \<Rightarrow> (result, 'f, 'x) call" where
  "decorated B (InvCallFunc w c addr req rsp opts) = as_result ErrorResult (CallFunc B w c addr (Some req) rsp opts)"
| "decorated B (InvCall w c req rsp opts) = as_result ErrorResult (Call B w c (Some req) rsp opts)"
| "decorated B (InvStream w c req opts) = as_result stream_result (Stream B w c (Some req) opts)"
| "decorated B (InvPublish w c p opts) = as_result ErrorResult (Publish B w c (Some p) opts)"
| "decorated B (InvHandler w fn c req rsp) = as_result ErrorResult (HandlerFunc B w fn c (Some req) rsp)"
| "decorated B (InvSubscriber w fn c msg) = as_result ErrorResult (SubscriberFunc B w fn c (Some msg))"

fun wrapped :: "('f, 'x) invocation \<Rightarrow> (result, 'f, 'x) call" where
  "wrapped (InvCallFunc w c addr req rsp opts) =
     (case callFunc w of None \<Rightarrow> nil_call | Some fn \<Rightarrow> as_result ErrorResult (fn c addr (Some req) rsp opts))"
| "wrapped (InvCall w c req rsp opts) =
     (case Client w of None \<Rightarrow> nil_call | Some cl \<Rightarrow> as_result ErrorResult (client_Call cl c (Some req) rsp opts))"
| "wrapped (InvStream w c req opts) =
     (case Client w of None \<Rightarrow> nil_call | Some cl \<Rightarrow> as_result stream_result (client_Stream cl c (Some req) opts))"
| "wrapped (InvPublish w c p opts) =
     (case Client w of None \<Rightarrow> nil_call | Some cl \<Rightarrow> as_result ErrorResult (client_Publish cl c (Some p) opts))"
| "wrapped (InvHandler w fn c req rsp) =
     (case fn of None \<Rightarrow> nil_call | Some f \<Rightarrow> as_result ErrorResult (f c (Some req) rsp))"
| "wrapped (InvSubscriber w fn c msg) =
     (case fn of None \<Rightarrow> nil_call | Some f \<Rightarrow> as_result ErrorResult (f c (Some msg)))"

fun group_of :: "('f, 'x) invocation \<Rightarrow> family_group" where
  "group_of (InvCallFunc w c addr req rsp opts) = ClientGroup"
| "group_of (InvCall w c req rsp opts) = ClientGroup"
| "group_of (InvStream w c req opts) = ClientGroup"
| "group_of (InvPublish w c p opts) = PublishGroup"
| "group_of (InvHandler w fn c req rsp) = ServerGroup"
| "group_of (InvSubscriber w fn c msg) = SubscribeGroup"

fun wrapper_of :: "('f, 'x) invocation \<Rightarrow> ('f, 'x) wrapper" where
  "wrapper_of (InvCallFunc w c addr req rsp opts) = w"
| "wrapper_of (InvCall w c req rsp opts) = w"
| "wrapper_of (InvStream w c req opts) = w"
| "wrapper_of (InvPublish w c p opts) = w"
| "wrapper_of (InvHandler w fn c req rsp) = w"
| "wrapper_of (InvSubscriber w fn c msg) = w"

text \<open>The value of the local variable \<^verbatim>\<open>endpoint\<close> in the operation of an invocation.\<close>

fun endpoint_of :: "('f, 'x) invocation \<Rightarrow> string" where
  "endpoint_of (InvCallFunc w c addr req rsp opts) = Service req @ ''.'' @ Endpoint req"
| "endpoint_of (InvCall w c req rsp opts) = Service req @ ''.'' @ Endpoint req"
| "endpoint_of (InvStream w c req opts) = Service req @ ''.'' @ Endpoint req"
| "endpoint_of (InvPublish w c p opts) = Topic p"
| "endpoint_of (InvHandler w fn c req rsp) = Endpoint req"
| "endpoint_of (InvSubscriber w fn c msg) = Topic msg"

text \<open>The label values of an invocation without the status, and the status of a result.\<close>

definition label_values :: "('f, 'x) invocation \<Rightarrow> string list" where
  "label_values iv =
     [Name (options (wrapper_of iv)), Version (options (wrapper_of iv)),
      ID (options (wrapper_of iv)), endpoint_of iv]"

definition status_of :: "result \<Rightarrow> string" where
  "status_of r = (if error_of r = None then ''success'' else ''failure'')"

text \<open>
  The decoration that the six operations spell out, once: used to reason about all of
  them; \<open>decorated_decorate\<close> below shows that each operation is an instance.
\<close>

definition decorate ::
  "('f, 't, 'x) backend \<Rightarrow> family_group \<Rightarrow> string list \<Rightarrow> ('a \<Rightarrow> error) \<Rightarrow>
   ('a, 'f, 'x) call \<Rightarrow> ('a, 'f, 'x) call"
where
  "decorate B g lvs err_of f s =
     with_deferred
       (ObserveDuration B (NewTimer B s) (\<lambda>v.
          seq (WithLabelValues_Observe (time_summary g) lvs (fmul B v (fconst B 1000000)))
            (\<lambda>u. WithLabelValues_Observe (time_histogram g) lvs v)))
       (seq f (\<lambda>r.
          seq (if err_of r = None
               then WithLabelValues_Inc (ops_counter g) (lvs @ [''success''])
               else WithLabelValues_Inc (ops_counter g) (lvs @ [''failure'']))
            (\<lambda>u. ret r)))
       s"

text \<open>The body of a decorated operation and its deferred observer, as \<open>decorate\<close> composes them.\<close>

definition counted_call :: "family_group \<Rightarrow> string list \<Rightarrow> ('a \<Rightarrow> error) \<Rightarrow> ('a, 'f, 'x) call \<Rightarrow> ('a, 'f, 'x) call" where
  "counted_call g lvs e f =
     seq f (\<lambda>r.
       seq (if e r = None
            then WithLabelValues_Inc (ops_counter g) (lvs @ [''success''])
            else WithLabelValues_Inc (ops_counter g) (lvs @ [''failure'']))
         (\<lambda>u. ret r))"

definition latency_observer :: "('f, 't, 'x) backend \<Rightarrow> family_group \<Rightarrow> string list \<Rightarrow> 'f \<Rightarrow> (unit, 'f, 'x) call" where
  "latency_observer B g lvs v =
     seq (WithLabelValues_Observe (time_summary g) lvs (fmul B v (fconst B 1000000)))
       (\<lambda>u. WithLabelValues_Observe (time_histogram g) lvs v)"

section \<open>Registration, uniformly\<close>

text \<open>
  What the four registration functions construct, as tables over the metric variables:
  the name after the prefix, the help text, the kind of vector and the label names.
  \<open>register_metrics_eq\<close> below shows that each registration function is
  \<open>init_group\<close> followed by the loop over \<open>collectors\<close>.
\<close>

fun family_suffix :: "gvar \<Rightarrow> string" where
  "family_suffix clientOpsCounter = ''request_total''"
| "family_suffix clientTimeCounterSummary = ''latency_microseconds''"
| "family_suffix clientTimeCounterHistogram = ''request_duration_seconds''"
| "family_suffix serverOpsCounter = ''server_request_total''"
| "family_suffix serverTimeCounterSummary = ''server_latency_microseconds''"
| "family_suffix serverTimeCounterHistogram = ''server_request_duration_seconds''"
| "family_suffix publishOpsCounter = ''publish_message_total''"
| "family_suffix publishTimeCounterSummary = ''publish_message_latency_microseconds''"
| "family_suffix publishTimeCounterHistogram = ''publish_message_duration_seconds''"
| "family_suffix subscribeOpsCounter = ''subscribe_message_total''"
| "family_suffix subscribeTimeCounterSummary = ''subscribe_message_latency_microseconds''"
| "family_suffix subscribeTimeCounterHistogram = ''subscribe_message_duration_seconds''"

fun family_help :: "gvar \<Rightarrow> string" where
  "family_help clientOpsCounter = ''Requests processed, partitioned by endpoint and status''"
| "family_help clientTimeCounterSummary = ''Request latencies in microseconds, partitioned by endpoint''"
| "family_help clientTimeCounterHistogram = ''Request time in seconds, partitioned by endpoint''"
| "family_help serverOpsCounter = ''Requests processed, partitioned by endpoint and status''"
| "family_help serverTimeCounterSummary = ''Request latencies in microseconds, partitioned by endpoint''"
| "family_help serverTimeCounterHistogram = ''Request time in seconds, partitioned by endpoint''"
| "family_help publishOpsCounter = ''Messages sent, partitioned by endpoint and status''"
| "family_help publishTimeCounterSummary = ''Message latencies in microseconds, partitioned by endpoint''"
| "family_help publishTimeCounterHistogram = ''Message publish time in seconds, partitioned by endpoint''"
| "family_help subscribeOpsCounter = ''Messages processed, partitioned by endpoint and status''"
| "family_help subscribeTimeCounterSummary = ''Message processing latencies in microseconds, partitioned by endpoint''"
| "family_help subscribeTimeCounterHistogram = ''Request time in seconds, partitioned by endpoint''"

fun family_kind :: "gvar \<Rightarrow> vec_kind" where
  "family_kind clientOpsCounter = CounterVec"
| "family_kind clientTimeCounterSummary = SummaryVec"
| "family_kind clientTimeCounterHistogram = HistogramVec"
| "family_kind serverOpsCounter = CounterVec"
| "family_kind serverTimeCounterSummary = SummaryVec"
| "family_kind serverTimeCounterHistogram = HistogramVec"
| "family_kind publishOpsCounter = CounterVec"
| "family_kind publishTimeCounterSummary = SummaryVec"
| "family_kind publishTimeCounterHistogram = HistogramVec"
| "family_kind subscribeOpsCounter = CounterVec"
| "family_kind subscribeTimeCounterSummary = SummaryVec"
| "family_kind subscribeTimeCounterHistogram = HistogramVec"

definition new_family :: "gvar \<Rightarrow> ('f, 'x) state \<Rightarrow> nat \<Rightarrow> 'f vec" where
  "new_family x s =
     (case family_kind x of
        CounterVec \<Rightarrow>
          NewCounterVec (DefaultMetricPrefix s @ family_suffix x) (family_help x)
            [DefaultLabelPrefix s @ ''name'', DefaultLabelPrefix s @ ''version'',
             DefaultLabelPrefix s @ ''id'', DefaultLabelPrefix s @ ''endpoint'',
             DefaultLabelPrefix s @ ''status'']
      | SummaryVec \<Rightarrow>
          NewSummaryVec (DefaultMetricPrefix s @ family_suffix x) (family_help x)
            [DefaultLabelPrefix s @ ''name'', DefaultLabelPrefix s @ ''version'',
             DefaultLabelPrefix s @ ''id'', DefaultLabelPrefix s @ ''endpoint'']
      | HistogramVec \<Rightarrow>
          NewHistogramVec (DefaultMetricPrefix s @ family_suffix x) (family_help x)
            [DefaultLabelPrefix s @ ''name'', DefaultLabelPrefix s @ ''version'',
             DefaultLabelPrefix s @ ''id'', DefaultLabelPrefix s @ ''endpoint''])"

text \<open>\<^verbatim>\<open>if x == nil { x = prometheus.NewXVec(...) }\<close>\<close>

definition init_var :: "gvar \<Rightarrow> ('f, 'x) state \<Rightarrow> ('f, 'x) state" where
  "init_var x s = (if vars s x = None then assign_new x (new_family x s) s else s)"

definition init_group :: "family_group \<Rightarrow> ('f, 'x) state \<Rightarrow> ('f, 'x) state" where
  "init_group g s = init_var (time_histogram g) (init_var (time_summary g) (init_var (ops_counter g) s))"

definition collectors :: "family_group \<Rightarrow> ('f, 'x) state \<Rightarrow> 'f vec option list" where
  "collectors g s = [vars s (ops_counter g), vars s (time_summary g), vars s (time_histogram g)]"

text \<open>
  The answers of the registry to registering a list of collectors one after the other,
  and the world these registrations leave.
\<close>

fun answers :: "('f, 't, 'x) backend \<Rightarrow> 'x \<Rightarrow> 'f vec option list \<Rightarrow> reg_error option list" where
  "answers B w [] = []"
| "answers B w (collector # rest) =
     fst (Register B w collector) # answers B (snd (Register B w collector)) rest"

fun registrations :: "('f, 't, 'x) backend \<Rightarrow> 'f vec option list \<Rightarrow> 'x \<Rightarrow> 'x" where
  "registrations B [] w = w"
| "registrations B (collector # rest) w = registrations B rest (snd (Register B w collector))"

text \<open>An answer that lets the loop go on: nil or \<^verbatim>\<open>AlreadyRegisteredError\<close>.\<close>

fun benign :: "reg_error option \<Rightarrow> bool" where
  "benign None = True"
| "benign (Some AlreadyRegisteredError) = True"
| "benign (Some (OtherError msg)) = False"

text \<open>What identifies a vector object: everything but its recorded data.\<close>

definition family_of :: "'f vec \<Rightarrow> vec_kind \<times> nat \<times> string \<times> string \<times> string list" where
  "family_of m = (kind m, oid m, opts_Name m, opts_Help m, labelNames m)"

section \<open>A concrete setting\<close>

text \<open>
  The state of the package when the process starts: the prefixes as the source
  initialises them, every metric variable nil, nothing constructed.
\<close>

definition initial_state :: "'x \<Rightarrow> ('f, 'x) state" where
  "initial_state w =
     \<lparr>DefaultMetricPrefix = ''micro_'', DefaultLabelPrefix = ''micro_'',
      vars = (\<lambda>x. None), allocs = [], world = w\<rparr>"

text \<open>
  A small world to run the model in: a clock in nanoseconds and the names under which
  collectors are registered.  The registry refuses a nil collector, answers
  \<^verbatim>\<open>AlreadyRegisteredError\<close> to a name it knows and registers any other collector.
  \<^verbatim>\<open>float64\<close> is idealised by the reals.
\<close>

definition example_backend :: "(real, nat, nat \<times> string list) backend" where
  "example_backend =
     \<lparr>Register = (\<lambda>w collector.
          case collector of
            None \<Rightarrow> (Some (OtherError ''nil collector''), w)
          | Some m \<Rightarrow>
              if opts_Name m \<in> set (snd w) then (Some AlreadyRegisteredError, w)
              else (None, (fst w, snd w @ [opts_Name m]))),
      Now = fst,
      Seconds_since = (\<lambda>t w. real (fst w - t) / 1000000000),
      fmul = (\<lambda>a b. a * b),
      fconst = real_of_int\<rparr>"

text \<open>A registry that answers every registration with an error of its own.\<close>

definition refusing_backend :: "(real, nat, nat \<times> string list) backend" where
  "refusing_backend = example_backend\<lparr>Register := (\<lambda>w collector. (Some (OtherError ''refused''), w))\<rparr>"

definition example_options :: "Option list" where
  "example_options = [ServiceName ''svc'', ServiceVersion ''v1'', ServiceID ''i1'']"

definition example_request :: request where
  "example_request = \<lparr>Service = ''Greeter'', Endpoint = ''Hello''\<rparr>"

definition example_message :: message where
  "example_message = \<lparr>Topic = ''events''\<rparr>"

text \<open>
  A request whose service name is the single byte 0xFF and a message whose topic is
  that byte: strings that are not valid UTF-8.
\<close>

definition malformed_request :: request where
  "malformed_request = \<lparr>Service = [CHR 0xFF], Endpoint = ''Hello''\<rparr>"

definition malformed_message :: message where
  "malformed_message = \<lparr>Topic = [CHR 0xFF]\<rparr>"

text \<open>The state after the registration of a group from the initial state.\<close>

definition ready_state :: "family_group \<Rightarrow> (real, nat \<times> string list) state" where
  "ready_state g =
     (case register_metrics g example_backend Background (initial_state (0, [])) of
        Inl e \<Rightarrow> initial_state (0, [])
      | Inr s \<Rightarrow> s)"

text \<open>
  Wrapped operations: one that takes ten milliseconds and succeeds, one that fails,
  one that panics.
\<close>

definition slow_success :: "(error, real, nat \<times> string list) call" where
  "slow_success s = (Return None, s\<lparr>world := (fst (world s) + 10000000, snd (world s))\<rparr>)"

definition failure :: "(error, real, nat \<times> string list) call" where
  "failure s = (Return (Some ''unavailable''), s)"

definition panicking :: "(error, real, nat \<times> string list) call" where
  "panicking s = (Panic (PanicValue ''boom''), s)"

definition example_wrapper :: "(real, nat \<times> string list) wrapper" where
  "example_wrapper =
     \<lparr>options = apply_options example_options,
      callFunc = Some (\<lambda>c addr req rsp opts. slow_success),
      Client = Some \<lparr>client_Call = (\<lambda>c req rsp opts. slow_success),
                     client_Stream = (\<lambda>c req opts s. (Return (7, None), s)),
                     client_Publish = (\<lambda>c p opts. failure)\<rparr>\<rparr>"

text \<open>
  The label tuples under which the recorded data of a metric variable differ between
  two states.
\<close>

definition touched :: "('f, 'x) state \<Rightarrow> ('f, 'x) state \<Rightarrow> gvar \<Rightarrow> string list set" where
  "touched s s' x =
     {lvs. counter_value s' x lvs \<noteq> counter_value s x lvs \<or>
           observations s' x lvs \<noteq> observations s x lvs}"

text \<open>
  Between two states, the ops counter of a group changed under the label tuple
  \<open>lvs\<close> with the status appended and under no other, and the summary and the
  histogram of the group changed under \<open>lvs\<close> and under no other.
\<close>

definition recorded_under ::
  "('f, 'x) state \<Rightarrow> ('f, 'x) state \<Rightarrow> family_group \<Rightarrow> string list \<Rightarrow> string \<Rightarrow> bool"
where
  "recorded_under s s' g lvs status =
     (touched s s' (ops_counter g) = {lvs @ [status]} \<and>
      touched s s' (time_summary g) = {lvs} \<and>
      touched s s' (time_histogram g) = {lvs})"

text \<open>
  Between two states, nothing changed in the metrics of a group except, at most, the
  ops counter under \<open>lvs\<close> with a status appended and the summary and the histogram
  under \<open>lvs\<close>.
\<close>

definition recorded_at_most ::
  "('f, 'x) state \<Rightarrow> ('f, 'x) state \<Rightarrow> family_group \<Rightarrow> string list \<Rightarrow> bool"
where
  "recorded_at_most s s' g lvs =
     (touched s s' (ops_counter g) \<subseteq> {lvs @ [''success''], lvs @ [''failure'']} \<and>
      touched s s' (time_summary g) \<subseteq> {lvs} \<and>
      touched s s' (time_histogram g) \<subseteq> {lvs})"

text \<open>The values observed under a label tuple between two states, in the order observed.\<close>

definition observed_in :: "('f, 'x) state \<Rightarrow> ('f, 'x) state \<Rightarrow> gvar \<Rightarrow> string list \<Rightarrow> 'f list" where
  "observed_in s s' x lvs = drop (length (observations s x lvs)) (observations s' x lvs)"

text \<open>A wrapper around operations that all fail, and a state with every group registered.\<close>

definition failing_wrapper :: "(real, nat \<times> string list) wrapper" where
  "failing_wrapper =
     \<lparr>options = apply_options example_options,
      callFunc = Some (\<lambda>c addr req rsp opts. failure),
      Client = Some \<lparr>client_Call = (\<lambda>c req rsp opts. failure),
                     client_Stream = (\<lambda>c req opts s. (Return (7, Some ''unavailable''), s)),
                     client_Publish = (\<lambda>c p opts. failure)\<rparr>\<rparr>"

definition all_ready_state :: "(real, nat \<times> string list) state" where
  "all_ready_state =
     init_group SubscribeGroup (init_group PublishGroup (init_group ServerGroup
       (init_group ClientGroup (initial_state (0, [])))))"

section \<open>The constructors, uniformly\<close>

text \<open>
  The state a constructor leaves when it returns, and the groups whose registration
  function it calls.
\<close>

datatype constructor = ClientWrapper | CallWrapper | HandlerWrapper | SubscriberWrapper

fun construct ::
  "constructor \<Rightarrow> ('f, 't, 'x) backend \<Rightarrow> Option list \<Rightarrow> ('f, 'x) state \<Rightarrow> exit + ('f, 'x) state"
where
  "construct ClientWrapper B opts s = map_sum id snd (NewClientWrapper B opts s)"
| "construct CallWrapper B opts s = map_sum id snd (NewCallWrapper B opts s)"
| "construct HandlerWrapper B opts s = map_sum id snd (NewHandlerWrapper B opts s)"
| "construct SubscriberWrapper B opts s = map_sum id snd (NewSubscriberWrapper B opts s)"

fun groups_of :: "constructor \<Rightarrow> family_group list" where
  "groups_of ClientWrapper = [ClientGroup, PublishGroup]"
| "groups_of CallWrapper = [ClientGroup]"
| "groups_of HandlerWrapper = [ServerGroup]"
| "groups_of SubscriberWrapper = [SubscribeGroup]"

text \<open>
  A registry that remembers: a collector it accepted, or answered
  \<^verbatim>\<open>AlreadyRegisteredError\<close> for, is from then on answered \<^verbatim>\<open>AlreadyRegisteredError\<close>, and
  that answer changes nothing.
\<close>

definition known :: "('f, 't, 'x) backend \<Rightarrow> 'x \<Rightarrow> 'f vec option \<Rightarrow> bool" where
  "known B w collector = (Register B w collector = (Some AlreadyRegisteredError, w))"

definition registry_remembers :: "('f, 't, 'x) backend \<Rightarrow> bool" where
  "registry_remembers B =
     ((\<forall>w collector. benign (fst (Register B w collector)) \<longrightarrow>
          known B (snd (Register B w collector)) collector) \<and>
      (\<forall>w collector other. known B w collector \<longrightarrow>
          known B (snd (Register B w other)) collector))"

text \<open>The registration functions of a list of groups, called one after the other.\<close>

fun register_all ::
  "family_group list \<Rightarrow> ('f, 't, 'x) backend \<Rightarrow> ctx \<Rightarrow> ('f, 'x) state \<Rightarrow> exit + ('f, 'x) state"
where
  "register_all [] B c s = Inr s"
| "register_all (g # gs) B c s =
     (case register_metrics g B c s of
        Inl e \<Rightarrow> Inl e
      | Inr s1 \<Rightarrow> register_all gs B c s1)"

text \<open>
  The state a registration function leaves when it returns: the variables of the group
  that were nil hold new vectors, and the registry has been handed the three collectors
  of the group, one after the other.
\<close>

definition after_registration ::
  "('f, 't, 'x) backend \<Rightarrow> family_group \<Rightarrow> ('f, 'x) state \<Rightarrow> ('f, 'x) state"
where
  "after_registration B g s =
     (init_group g s)\<lparr>world := registrations B (collectors g (init_group g s)) (world s)\<rparr>"

text \<open>A group is registered and the registry knows its three collectors.\<close>

definition settled :: "('f, 't, 'x) backend \<Rightarrow> family_group \<Rightarrow> ('f, 'x) state \<Rightarrow> bool" where
  "settled B g s =
     (registered g s \<and> (\<forall>collector \<in> set (collectors g s). known B (world s) collector))"

section \<open>Concurrent construction\<close>

text \<open>
  Constructors may run in several goroutines at once.  Each goroutine runs the
  registration functions of its constructor one after the other, and a registration
  function is a sequence of steps, each atomic, between which other goroutines may take
  steps of their own:
  \<^item> \<^verbatim>\<open>mu.Lock()\<close>, which can be taken only when no goroutine holds the mutex;
  \<^item> for each of the three metric variables of the group, in the order of the source:
    the test \<^verbatim>\<open>x == nil\<close> and, if it held, the assignment \<^verbatim>\<open>x = prometheus.NewXVec(...)\<close>;
  \<^item> building the slice of the three collectors;
  \<^item> one call of \<^verbatim>\<open>Register\<close> for each collector of the slice, with \<^verbatim>\<open>logger.Fatal\<close> in the
    same step when the answer is an error other than \<^verbatim>\<open>AlreadyRegisteredError\<close>;
  \<^item> the deferred \<^verbatim>\<open>mu.Unlock()\<close>.
\<close>

datatype slot = OpsCounterSlot | SummarySlot | HistogramSlot

fun slot_var :: "family_group \<Rightarrow> slot \<Rightarrow> gvar" where
  "slot_var g OpsCounterSlot = ops_counter g"
| "slot_var g SummarySlot = time_summary g"
| "slot_var g HistogramSlot = time_histogram g"

datatype 'f point =
    AtLock
  | AtCheck slot
  | AtNew slot
  | AtCollect
  | AtRegister "'f vec option list"
  | AtUnlock

text \<open>
  Where a goroutine goes after the \<^verbatim>\<open>if\<close> statement of a metric variable, and where it
  stands in the loop over the collectors that are left.
\<close>

fun after_slot :: "slot \<Rightarrow> 'f point" where
  "after_slot OpsCounterSlot = AtCheck SummarySlot"
| "after_slot SummarySlot = AtCheck HistogramSlot"
| "after_slot HistogramSlot = AtCollect"

fun loop_point :: "'f vec option list \<Rightarrow> 'f point" where
  "loop_point [] = AtUnlock"
| "loop_point (collector # rest) = AtRegister (collector # rest)"

text \<open>
  A goroutine: where it stands in the registration function it runs, the groups whose
  registration functions it has yet to complete (the first is the one it runs; none
  left means its constructor has returned), and the context it passes.
\<close>

record 'f thread =
  point :: "'f point"
  queue :: "family_group list"
  thread_ctx :: ctx

text \<open>
  The process: the state of the package, the goroutine that holds \<^verbatim>\<open>mu\<close> if any, the
  goroutines, and how the process was terminated if it was.
\<close>

record ('f, 'x) system =
  shared :: "('f, 'x) state"
  mu :: "nat option"
  threads :: "nat \<Rightarrow> 'f thread"
  exited :: "exit option"

definition goto :: "nat \<Rightarrow> 'f point \<Rightarrow> ('f, 'x) system \<Rightarrow> ('f, 'x) system" where
  "goto t p sys = sys\<lparr>threads := (threads sys)(t := (threads sys t)\<lparr>point := p\<rparr>)\<rparr>"

text \<open>
  One step of goroutine \<open>t\<close>.  A goroutine that waits for the mutex, one whose
  constructor has returned, and every goroutine of a terminated process takes no step:
  the system stays as it is.
\<close>

definition step :: "('f, 't, 'x) backend \<Rightarrow> nat \<Rightarrow> ('f, 'x) system \<Rightarrow> ('f, 'x) system" where
  "step B t sys =
     (if exited sys \<noteq> None then sys
      else
        case queue (threads sys t) of
          [] \<Rightarrow> sys
        | g # rest \<Rightarrow>
            (case point (threads sys t) of
               AtLock \<Rightarrow>
                 (if mu sys = None then goto t (AtCheck OpsCounterSlot) (sys\<lparr>mu := Some t\<rparr>) else sys)
             | AtCheck i \<Rightarrow>
                 (if vars (shared sys) (slot_var g i) = None then goto t (AtNew i) sys
                  else goto t (after_slot i) sys)
             | AtNew i \<Rightarrow>
                 goto t (after_slot i)
                   (sys\<lparr>shared := assign_new (slot_var g i) (new_family (slot_var g i) (shared sys))
                                   (shared sys)\<rparr>)
             | AtCollect \<Rightarrow> goto t (loop_point (collectors g (shared sys))) sys
             | AtRegister [] \<Rightarrow> goto t AtUnlock sys
             | AtRegister (collector # cs) \<Rightarrow>
                 (case Register B (world (shared sys)) collector of
                    (None, w) \<Rightarrow>
                      goto t (loop_point cs) (sys\<lparr>shared := (shared sys)\<lparr>world := w\<rparr>\<rparr>)
                  | (Some err, w) \<Rightarrow>
                      (case err of
                         AlreadyRegisteredError \<Rightarrow>
                           goto t (loop_point cs) (sys\<lparr>shared := (shared sys)\<lparr>world := w\<rparr>\<rparr>)
                       | OtherError msg \<Rightarrow>
                           sys\<lparr>shared := (shared sys)\<lparr>world := w\<rparr>,
                               exited := Some (Fatal (thread_ctx (threads sys t)) msg)\<rparr>))
             | AtUnlock \<Rightarrow>
                 sys\<lparr>mu := None,
                     threads := (threads sys)(t := (threads sys t)\<lparr>point := AtLock, queue := rest\<rparr>)\<rparr>))"

text \<open>A schedule says which goroutine takes the next step; every interleaving is a schedule.\<close>

fun run :: "('f, 't, 'x) backend \<Rightarrow> nat list \<Rightarrow> ('f, 'x) system \<Rightarrow> ('f, 'x) system" where
  "run B [] sys = sys"
| "run B (t # schedule) sys = run B schedule (step B t sys)"

text \<open>
  The process before any goroutine has taken a step: goroutine \<open>t\<close> is about to run the
  constructor \<open>ks t\<close> if there is one.
\<close>

definition start ::
  "(nat \<Rightarrow> constructor option) \<Rightarrow> (nat \<Rightarrow> ctx) \<Rightarrow> ('f, 'x) state \<Rightarrow> ('f, 'x) system"
where
  "start ks cs s =
     \<lparr>shared = s, mu = None,
      threads = (\<lambda>t. \<lparr>point = AtLock,
                       queue = (case ks t of None \<Rightarrow> [] | Some k \<Rightarrow> groups_of k),
                       thread_ctx = cs t\<rparr>),
      exited = None\<rparr>"

text \<open>A goroutine is between \<^verbatim>\<open>mu.Lock()\<close> and \<^verbatim>\<open>mu.Unlock()\<close>.\<close>

definition in_critical_section :: "('f, 'x) system \<Rightarrow> nat \<Rightarrow> bool" where
  "in_critical_section sys t = (queue (threads sys t) \<noteq> [] \<and> point (threads sys t) \<noteq> AtLock)"

text \<open>The name a metric variable's object is constructed with.\<close>

definition family_name :: "('f, 'x) state \<Rightarrow> gvar \<Rightarrow> string" where
  "family_name s x = DefaultMetricPrefix s @ family_suffix x"

text \<open>
  The steps by name, and the steps that a schedule makes the goroutines take, in order
  (a goroutine that cannot take a step contributes none).
\<close>

datatype action = Lock | CheckNull gvar | Construct gvar | Collect | CallRegister | Unlock

fun action_at :: "family_group \<Rightarrow> 'f point \<Rightarrow> action" where
  "action_at g AtLock = Lock"
| "action_at g (AtCheck i) = CheckNull (slot_var g i)"
| "action_at g (AtNew i) = Construct (slot_var g i)"
| "action_at g AtCollect = Collect"
| "action_at g (AtRegister cs) = CallRegister"
| "action_at g AtUnlock = Unlock"

definition next_action :: "('f, 'x) system \<Rightarrow> nat \<Rightarrow> action list" where
  "next_action sys t =
     (if exited sys \<noteq> None then []
      else
        case queue (threads sys t) of
          [] \<Rightarrow> []
        | g # rest \<Rightarrow>
            if point (threads sys t) = AtLock \<and> mu sys \<noteq> None then []
            else [action_at g (point (threads sys t))])"

fun trace :: "('f, 't, 'x) backend \<Rightarrow> nat list \<Rightarrow> ('f, 'x) system \<Rightarrow> action list" where
  "trace B [] sys = []"
| "trace B (t # schedule) sys = next_action sys t @ trace B schedule (step B t sys)"

text \<open>
  Modelled from the spec: the order of steps that the spec gives for one metric
  variable, "check-null, lock, check-null-again, construct, unlock".
\<close>

definition spec_double_checked_locking :: "gvar \<Rightarrow> action list" where
  "spec_double_checked_locking x = [CheckNull x, Lock, CheckNull x, Construct x, Unlock]"

text \<open>
  The constructed objects are told apart by their names: the names constructed so far
  are distinct, and a metric variable is set exactly if its name is among them.
\<close>

definition consistent :: "('f, 'x) state \<Rightarrow> bool" where
  "consistent s =
     (distinct (allocs s) \<and>
      (\<forall>x. (vars s x \<noteq> None) = (family_name s x \<in> set (allocs s))))"

text \<open>
  What holds of every process the goroutines can reach: only the holder of the mutex is
  in the critical section; a goroutine about to construct still finds its variable nil;
  a goroutine past the \<^verbatim>\<open>if\<close> statement of a variable finds it set; and a group whose
  registration function a goroutine has completed is registered.
\<close>

fun slots_before :: "slot \<Rightarrow> slot list" where
  "slots_before OpsCounterSlot = []"
| "slots_before SummarySlot = [OpsCounterSlot]"
| "slots_before HistogramSlot = [OpsCounterSlot, SummarySlot]"

fun point_ok :: "('f, 'x) state \<Rightarrow> family_group \<Rightarrow> 'f point \<Rightarrow> bool" where
  "point_ok s g AtLock = True"
| "point_ok s g (AtCheck i) = (\<forall>j \<in> set (slots_before i). vars s (slot_var g j) \<noteq> None)"
| "point_ok s g (AtNew i) =
     (vars s (slot_var g i) = None \<and> (\<forall>j \<in> set (slots_before i). vars s (slot_var g j) \<noteq> None))"
| "point_ok s g AtCollect = registered g s"
| "point_ok s g (AtRegister cs) = registered g s"
| "point_ok s g AtUnlock = registered g s"

definition lock_inv :: "('f, 'x) system \<Rightarrow> bool" where
  "lock_inv sys = (\<forall>t. in_critical_section sys t \<longrightarrow> mu sys = Some t)"

definition points_inv :: "('f, 'x) system \<Rightarrow> bool" where
  "points_inv sys =
     (\<forall>t g rest. queue (threads sys t) = g # rest \<longrightarrow>
        point_ok (shared sys) g (point (threads sys t)))"

definition done_inv :: "(nat \<Rightarrow> constructor option) \<Rightarrow> ('f, 'x) system \<Rightarrow> bool" where
  "done_inv ks sys =
     (\<forall>t k g. ks t = Some k \<and> g \<in> set (groups_of k) \<longrightarrow>
        g \<in> set (queue (threads sys t)) \<or> registered g (shared sys))"

definition invariant :: "(nat \<Rightarrow> constructor option) \<Rightarrow> ('f, 'x) system \<Rightarrow> bool" where
  "invariant ks sys =
     (consistent (shared sys) \<and> lock_inv sys \<and> points_inv sys \<and> done_inv ks sys)"

text \<open>
  Two goroutines that both construct a handler wrapper, and a schedule for them: the
  second goroutine asks for the mutex while the first holds it, and runs once the first
  has returned.
\<close>

definition two_handler_constructors :: "nat \<Rightarrow> constructor option" where
  "two_handler_constructors t = (if t < 2 then Some HandlerWrapper else None)"

definition example_schedule :: "nat list" where
  "example_schedule = [0, 1, 0, 1] @ replicate 10 0 @ replicate 9 1"

definition example_start :: "(real, nat \<times> string list) system" where
  "example_start = start two_handler_constructors (\<lambda>t. Background) (initial_state (0, []))"

section \<open>Basic facts\<close>

lemma assign_new_vars:
  "vars (assign_new x new s) y = (if y = x then Some (new (length (allocs s))) else vars s y)"
  by (simp add: assign_new_def)

subsection \<open>Registration\<close>

lemma init_var_unfold:
  "(if vars s serverOpsCounter = None then assign_new serverOpsCounter (NewCounterVec (DefaultMetricPrefix s @ ''server_request_total'') ''Requests processed, partitioned by endpoint and status'' [DefaultLabelPrefix s @ ''name'', DefaultLabelPrefix s @ ''version'', DefaultLabelPrefix s @ ''id'', DefaultLabelPrefix s @ ''endpoint'', DefaultLabelPrefix s @ ''status'']) s else s) =
     init_var serverOpsCounter s"
  "(if vars s serverTimeCounterSummary = None then assign_new serverTimeCounterSummary (NewSummaryVec (DefaultMetricPrefix s @ ''server_latency_microseconds'') ''Request latencies in microseconds, partitioned by endpoint'' [DefaultLabelPrefix s @ ''name'', DefaultLabelPrefix s @ ''version'', DefaultLabelPrefix s @ ''id'', DefaultLabelPrefix s @ ''endpoint'']) s else s) =
     init_var serverTimeCounterSummary s"
  "(if vars s serverTimeCounterHistogram = None then assign_new serverTimeCounterHistogram (NewHistogramVec (DefaultMetricPrefix s @ ''server_request_duration_seconds'') ''Request time in seconds, partitioned by endpoint'' [DefaultLabelPrefix s @ ''name'', DefaultLabelPrefix s @ ''version'', DefaultLabelPrefix s @ ''id'', DefaultLabelPrefix s @ ''endpoint'']) s else s) =
     init_var serverTimeCounterHistogram s"
  "(if vars s publishOpsCounter = None then assign_new publishOpsCounter (NewCounterVec (DefaultMetricPrefix s @ ''publish_message_total'') ''Messages sent, partitioned by endpoint and status'' [DefaultLabelPrefix s @ ''name'', DefaultLabelPrefix s @ ''version'', DefaultLabelPrefix s @ ''id'', DefaultLabelPrefix s @ ''endpoint'', DefaultLabelPrefix s @ ''status'']) s else s) =
     init_var publishOpsCounter s"
  "(if vars s publishTimeCounterSummary = None then assign_new publishTimeCounterSummary (NewSummaryVec (DefaultMetricPrefix s @ ''publish_message_latency_microseconds'') ''Message latencies in microseconds, partitioned by endpoint'' [DefaultLabelPrefix s @ ''name'', DefaultLabelPrefix s @ ''version'', DefaultLabelPrefix s @ ''id'', DefaultLabelPrefix s @ ''endpoint'']) s else s) =
     init_var publishTimeCounterSummary s"
  "(if vars s publishTimeCounterHistogram = None then assign_new publishTimeCounterHistogram (NewHistogramVec (DefaultMetricPrefix s @ ''publish_message_duration_seconds'') ''Message publish time in seconds, partitioned by endpoint'' [DefaultLabelPrefix s @ ''name'', DefaultLabelPrefix s @ ''version'', DefaultLabelPrefix s @ ''id'', DefaultLabelPrefix s @ ''endpoint'']) s else s) =
     init_var publishTimeCounterHistogram s"
  "(if vars s subscribeOpsCounter = None then assign_new subscribeOpsCounter (NewCounterVec (DefaultMetricPrefix s @ ''subscribe_message_total'') ''Messages processed, partitioned by endpoint and status'' [DefaultLabelPrefix s @ ''name'', DefaultLabelPrefix s @ ''version'', DefaultLabelPrefix s @ ''id'', DefaultLabelPrefix s @ ''endpoint'', DefaultLabelPrefix s @ ''status'']) s else s) =
     init_var subscribeOpsCounter s"
  "(if vars s subscribeTimeCounterSummary = None then assign_new subscribeTimeCounterSummary (NewSummaryVec (DefaultMetricPrefix s @ ''subscribe_message_latency_microseconds'') ''Message processing latencies in microseconds, partitioned by endpoint'' [DefaultLabelPrefix s @ ''name'', DefaultLabelPrefix s @ ''version'', DefaultLabelPrefix s @ ''id'', DefaultLabelPrefix s @ ''endpoint'']) s else s) =
     init_var subscribeTimeCounterSummary s"
  "(if vars s subscribeTimeCounterHistogram = None then assign_new subscribeTimeCounterHistogram (NewHistogramVec (DefaultMetricPrefix s @ ''subscribe_message_duration_seconds'') ''Request time in seconds, partitioned by endpoint'' [DefaultLabelPrefix s @ ''name'', DefaultLabelPrefix s @ ''version'', DefaultLabelPrefix s @ ''id'', DefaultLabelPrefix s @ ''endpoint'']) s else s) =
     init_var subscribeTimeCounterHistogram s"
  "(if vars s clientOpsCounter = None then assign_new clientOpsCounter (NewCounterVec (DefaultMetricPrefix s @ ''request_total'') ''Requests processed, partitioned by endpoint and status'' [DefaultLabelPrefix s @ ''name'', DefaultLabelPrefix s @ ''version'', DefaultLabelPrefix s @ ''id'', DefaultLabelPrefix s @ ''endpoint'', DefaultLabelPrefix s @ ''status'']) s else s) =
     init_var clientOpsCounter s"
  "(if vars s clientTimeCounterSummary = None then assign_new clientTimeCounterSummary (NewSummaryVec (DefaultMetricPrefix s @ ''latency_microseconds'') ''Request latencies in microseconds, partitioned by endpoint'' [DefaultLabelPrefix s @ ''name'', DefaultLabelPrefix s @ ''version'', DefaultLabelPrefix s @ ''id'', DefaultLabelPrefix s @ ''endpoint'']) s else s) =
     init_var clientTimeCounterSummary s"
  "(if vars s clientTimeCounterHistogram = None then assign_new clientTimeCounterHistogram (NewHistogramVec (DefaultMetricPrefix s @ ''request_duration_seconds'') ''Request time in seconds, partitioned by endpoint'' [DefaultLabelPrefix s @ ''name'', DefaultLabelPrefix s @ ''version'', DefaultLabelPrefix s @ ''id'', DefaultLabelPrefix s @ ''endpoint'']) s else s) =
     init_var clientTimeCounterHistogram s"
  by (simp_all add: init_var_def new_family_def)

lemma register_metrics_eq:
  "register_metrics g B c s =
     register_collectors B c (collectors g (init_group g s)) (init_group g s)"
proof (cases g)
  case ClientGroup
  then show ?thesis
    unfolding registerClientMetrics_def register_metrics.simps ClientGroup init_var_unfold
    by (simp add: Let_def init_group_def collectors_def)
next
  case ServerGroup
  then show ?thesis
    unfolding registerServerMetrics_def register_metrics.simps ServerGroup init_var_unfold
    by (simp add: Let_def init_group_def collectors_def)
next
  case PublishGroup
  then show ?thesis
    unfolding registerPublishMetrics_def register_metrics.simps PublishGroup init_var_unfold
    by (simp add: Let_def init_group_def collectors_def)
next
  case SubscribeGroup
  then show ?thesis
    unfolding registerSubscribeMetrics_def register_metrics.simps SubscribeGroup init_var_unfold
    by (simp add: Let_def init_group_def collectors_def)
qed

lemma init_var_simps:
  "vars (init_var x s) y =
     (if y = x \<and> vars s x = None then Some (new_family x s (length (allocs s))) else vars s y)"
  "world (init_var x s) = world s"
  "DefaultMetricPrefix (init_var x s) = DefaultMetricPrefix s"
  "DefaultLabelPrefix (init_var x s) = DefaultLabelPrefix s"
  "allocs (init_var x s) =
     (if vars s x = None then allocs s @ [DefaultMetricPrefix s @ family_suffix x] else allocs s)"
  by (cases "family_kind x";
      simp add: init_var_def assign_new_def new_family_def NewCounterVec_def NewSummaryVec_def
        NewHistogramVec_def)+

lemma init_var_idem: "vars s x \<noteq> None \<Longrightarrow> init_var x s = s"
  by (auto simp: init_var_def)

lemma init_group_simps:
  "world (init_group g s) = world s"
  "DefaultMetricPrefix (init_group g s) = DefaultMetricPrefix s"
  "DefaultLabelPrefix (init_group g s) = DefaultLabelPrefix s"
  by (simp_all add: init_group_def init_var_simps)

lemma registered_init_group: "registered g (init_group g s)"
  by (simp add: registered_def init_group_def init_var_simps)

lemma init_group_idem: "registered g s \<Longrightarrow> init_group g s = s"
  by (simp add: registered_def init_group_def init_var_idem)

lemma vars_init_group_other:
  "y \<notin> {ops_counter g, time_summary g, time_histogram g} \<Longrightarrow> vars (init_group g s) y = vars s y"
  by (simp add: init_group_def init_var_simps)

lemma vars_init_group_keep: "vars s y \<noteq> None \<Longrightarrow> vars (init_group g s) y = vars s y"
  by (auto simp: init_group_def init_var_simps)

lemma register_collectors_Inr:
  "register_collectors B c cs s = Inr s' \<Longrightarrow>
     s' = s\<lparr>world := registrations B cs (world s)\<rparr> \<and> list_all benign (answers B (world s) cs)"
proof (induction cs arbitrary: s)
  case Nil
  then show ?case by simp
next
  case (Cons collector rest)
  obtain a w where r: "Register B (world s) collector = (a, w)"
    by (cases "Register B (world s) collector")
  show ?case
  proof (cases a rule: benign.cases)
    case 1
    with Cons.prems r have "register_collectors B c rest (s\<lparr>world := w\<rparr>) = Inr s'" by simp
    from Cons.IH[OF this] 1 r show ?thesis by simp
  next
    case 2
    with Cons.prems r have "register_collectors B c rest (s\<lparr>world := w\<rparr>) = Inr s'" by simp
    from Cons.IH[OF this] 2 r show ?thesis by simp
  next
    case (3 msg)
    with Cons.prems r show ?thesis by simp
  qed
qed

lemma register_collectors_benign:
  "list_all benign (answers B (world s) cs) \<Longrightarrow>
     register_collectors B c cs s = Inr (s\<lparr>world := registrations B cs (world s)\<rparr>)"
proof (induction cs arbitrary: s)
  case Nil
  then show ?case by simp
next
  case (Cons collector rest)
  obtain a w where r: "Register B (world s) collector = (a, w)"
    by (cases "Register B (world s) collector")
  from Cons.prems r have b: "benign a" and t: "list_all benign (answers B w rest)"
    by simp_all
  from Cons.IH[of "s\<lparr>world := w\<rparr>"] t
  have "register_collectors B c rest (s\<lparr>world := w\<rparr>) =
          Inr (s\<lparr>world := registrations B rest w\<rparr>)" by simp
  with b r show ?case by (cases a rule: benign.cases) simp_all
qed

lemma register_collectors_fatal:
  "i < length cs \<Longrightarrow> list_all benign (take i (answers B (world s) cs)) \<Longrightarrow>
   answers B (world s) cs ! i = Some (OtherError msg) \<Longrightarrow>
     register_collectors B c cs s = Inl (Fatal c msg)"
proof (induction cs arbitrary: s i)
  case Nil
  then show ?case by simp
next
  case (Cons collector rest)
  obtain a w where r: "Register B (world s) collector = (a, w)"
    by (cases "Register B (world s) collector")
  show ?case
  proof (cases i)
    case 0
    with Cons.prems r show ?thesis by simp
  next
    case (Suc j)
    with Cons.prems r have b: "benign a" and j: "j < length rest"
      and t: "list_all benign (take j (answers B w rest))"
      and n: "answers B w rest ! j = Some (OtherError msg)"
      by simp_all
    from Cons.IH[of j "s\<lparr>world := w\<rparr>"] j t n
    have "register_collectors B c rest (s\<lparr>world := w\<rparr>) = Inl (Fatal c msg)" by simp
    with b r show ?thesis by (cases a rule: benign.cases) simp_all
  qed
qed

lemma length_answers: "length (answers B w cs) = length cs"
  by (induction cs arbitrary: w) simp_all

subsection \<open>Every operation is an instance of the decoration\<close>

lemma nil_call_eq: "nil_call = (\<lambda>s. (Panic NilDereference, s))"
  by (rule ext) (simp add: nil_call_def)

lemma as_result_decorate:
  "as_result F (decorate B g lvs (\<lambda>a. error_of (F a)) f) s = decorate B g lvs error_of (as_result F f) s"
proof (cases "f s")
  case (Pair r s1)
  show ?thesis
  proof (cases r)
    case (Return a)
    with Pair show ?thesis
      by (cases "WithLabelValues_Inc (ops_counter g) (lvs @ [''success'']) s1";
          cases "WithLabelValues_Inc (ops_counter g) (lvs @ [''failure'']) s1")
         (auto simp: as_result_def decorate_def with_deferred_def seq_def ret_def
            split: prod.splits outcome.splits)
  next
    case (Panic p)
    with Pair show ?thesis
      by (auto simp: as_result_def decorate_def with_deferred_def seq_def ret_def
            split: prod.splits outcome.splits)
  qed
qed

lemma nil_request_panics:
  "CallFunc B w c addr None rsp copts s = (Panic NilDereference, s)"
  "Call B w c None rsp opts s = (Panic NilDereference, s)"
  "Stream B w c None opts s = (Panic NilDereference, s)"
  "Publish B w c None popts s = (Panic NilDereference, s)"
  "HandlerFunc B w hf c None rsp s = (Panic NilDereference, s)"
  "SubscriberFunc B w sf c None s = (Panic NilDereference, s)"
  by (simp_all add: CallFunc_def Call_def Stream_def Publish_def HandlerFunc_def SubscriberFunc_def)

lemma CallFunc_decorate:
  "CallFunc B w c addr (Some req) rsp opts =
     decorate B ClientGroup [Name (options w), Version (options w), ID (options w), Service req @ ''.'' @ Endpoint req] (\<lambda>e. e)
       (case callFunc w of None \<Rightarrow> nil_call | Some fn \<Rightarrow> fn c addr (Some req) rsp opts)"
  by (rule ext) (simp add: CallFunc_def decorate_def Let_def nil_call_eq cong: if_cong option.case_cong)

lemma Call_decorate:
  "Call B w c (Some req) rsp opts =
     decorate B ClientGroup [Name (options w), Version (options w), ID (options w), Service req @ ''.'' @ Endpoint req] (\<lambda>e. e)
       (case Client w of None \<Rightarrow> nil_call | Some cl \<Rightarrow> client_Call cl c (Some req) rsp opts)"
  by (rule ext) (simp add: Call_def decorate_def Let_def nil_call_eq cong: if_cong option.case_cong)

lemma Stream_decorate:
  "Stream B w c (Some req) opts =
     decorate B ClientGroup [Name (options w), Version (options w), ID (options w), Service req @ ''.'' @ Endpoint req] snd
       (case Client w of None \<Rightarrow> nil_call | Some cl \<Rightarrow> client_Stream cl c (Some req) opts)"
  by (rule ext) (simp add: Stream_def decorate_def Let_def nil_call_eq case_prod_unfold cong: if_cong option.case_cong)

lemma Publish_decorate:
  "Publish B w c (Some p) opts =
     decorate B PublishGroup [Name (options w), Version (options w), ID (options w), Topic p] (\<lambda>e. e)
       (case Client w of None \<Rightarrow> nil_call | Some cl \<Rightarrow> client_Publish cl c (Some p) opts)"
  by (rule ext) (simp add: Publish_def decorate_def Let_def nil_call_eq cong: if_cong option.case_cong)

lemma HandlerFunc_decorate:
  "HandlerFunc B w fn c (Some req) rsp =
     decorate B ServerGroup [Name (options w), Version (options w), ID (options w), Endpoint req] (\<lambda>e. e)
       (case fn of None \<Rightarrow> nil_call | Some f \<Rightarrow> f c (Some req) rsp)"
  by (rule ext) (simp add: HandlerFunc_def decorate_def Let_def nil_call_eq cong: if_cong option.case_cong)

lemma SubscriberFunc_decorate:
  "SubscriberFunc B w fn c (Some msg) =
     decorate B SubscribeGroup [Name (options w), Version (options w), ID (options w), Topic msg] (\<lambda>e. e)
       (case fn of None \<Rightarrow> nil_call | Some f \<Rightarrow> f c (Some msg))"
  by (rule ext) (simp add: SubscriberFunc_def decorate_def Let_def nil_call_eq cong: if_cong option.case_cong)

lemma as_result_nil: "as_result F nil_call = nil_call"
  by (rule ext) (simp add: as_result_def nil_call_def)

lemma decorated_decorate:
  "decorated B iv s = decorate B (group_of iv) (label_values iv) error_of (wrapped iv) s"
proof (cases iv)
  case (InvCallFunc w c addr req rsp opts)
  then show ?thesis
    using as_result_decorate[of ErrorResult B ClientGroup _ _ s]
    by (simp add: CallFunc_decorate label_values_def as_result_nil split: option.splits)
next
  case (InvCall w c req rsp opts)
  then show ?thesis
    using as_result_decorate[of ErrorResult B ClientGroup _ _ s]
    by (simp add: Call_decorate label_values_def as_result_nil split: option.splits)
next
  case (InvStream w c req opts)
  then show ?thesis
    using as_result_decorate[of stream_result B ClientGroup _ _ s]
    by (simp add: Stream_decorate label_values_def as_result_nil stream_result_def[abs_def] split: option.splits)
next
  case (InvPublish w c p opts)
  then show ?thesis
    using as_result_decorate[of ErrorResult B PublishGroup _ _ s]
    by (simp add: Publish_decorate label_values_def as_result_nil split: option.splits)
next
  case (InvHandler w fn c req rsp)
  then show ?thesis
    using as_result_decorate[of ErrorResult B ServerGroup _ _ s]
    by (simp add: HandlerFunc_decorate label_values_def as_result_nil split: option.splits)
next
  case (InvSubscriber w fn c msg)
  then show ?thesis
    using as_result_decorate[of ErrorResult B SubscribeGroup _ _ s]
    by (simp add: SubscriberFunc_decorate label_values_def as_result_nil split: option.splits)
qed

subsection \<open>Effects of the decoration\<close>

lemma seq_alt:
  "seq m k s = (case fst (m s) of Return a \<Rightarrow> k a (snd (m s)) | Panic p \<Rightarrow> (Panic p, snd (m s)))"
  by (simp add: seq_def split: prod.splits outcome.splits)

lemma with_deferred_alt:
  "with_deferred d body s =
     (case fst (d (snd (body s))) of
        Return u \<Rightarrow> (fst (body s), snd (d (snd (body s))))
      | Panic p \<Rightarrow> (Panic p, snd (d (snd (body s)))))"
  by (simp add: with_deferred_def split: prod.splits outcome.splits)

text \<open>
  The validity of label values: strings of bytes below 0x80 are valid, and so are the
  shortest encodings of code points up to U+10FFFF that are not surrogates; truncated
  and overlong sequences, surrogates and stray bytes are not.
\<close>

lemma ValidString_ascii: "list_all (byte_in 0x00 0x7F) s \<Longrightarrow> ValidString s"
  by (induction s) (simp_all add: rune_width_def)

lemma ValidString_cases:
  "\<not> ValidString [CHR 0x80]"
  "\<not> ValidString [CHR 0xC0, CHR 0x80]"
  "ValidString [CHR 0xC2, CHR 0x80]"
  "\<not> ValidString [CHR 0xC2]"
  "\<not> ValidString [CHR 0xC2, CHR 0x41]"
  "\<not> ValidString [CHR 0xE0, CHR 0x80, CHR 0x80]"
  "ValidString [CHR 0xE0, CHR 0xA0, CHR 0x80]"
  "ValidString [CHR 0xED, CHR 0x9F, CHR 0xBF]"
  "\<not> ValidString [CHR 0xED, CHR 0xA0, CHR 0x80]"
  "\<not> ValidString [CHR 0xF0, CHR 0x80, CHR 0x80, CHR 0x80]"
  "ValidString [CHR 0xF0, CHR 0x90, CHR 0x80, CHR 0x80]"
  "ValidString [CHR 0xF4, CHR 0x8F, CHR 0xBF, CHR 0xBF]"
  "\<not> ValidString [CHR 0xF4, CHR 0x90, CHR 0x80, CHR 0x80]"
  "\<not> ValidString [CHR 0xF5, CHR 0x80, CHR 0x80, CHR 0x80]"
  "ValidString (''a'' @ [CHR 0xE2, CHR 0x82, CHR 0xAC] @ ''b'')"
  "\<not> ValidString (''a'' @ [CHR 0xE2, CHR 0x82] @ ''b'')"
  by (simp_all add: rune_width_def byte_in_def)

lemma validateLabelValues_None:
  "validateLabelValues vals = None \<longleftrightarrow> list_all ValidString vals"
  by (auto simp: validateLabelValues_def find_None_iff list_all_iff)

lemma ValidString_status: "ValidString ''success''" "ValidString ''failure''"
  by (simp_all add: rune_width_def byte_in_def)

lemma validateLabelValues_status:
  "validateLabelValues (lvs @ [''success'']) = validateLabelValues lvs"
  "validateLabelValues (lvs @ [''failure'']) = validateLabelValues lvs"
  by (induction lvs) (simp_all add: validateLabelValues_def ValidString_status del: ValidString.simps)

lemma fst_Inc:
  "fst (WithLabelValues_Inc x l s) =
     (if vars s x = None then Panic NilDereference
      else case validateLabelValues l of
             None \<Rightarrow> Return () | Some val \<Rightarrow> Panic (InvalidLabelValue val))"
  by (simp add: WithLabelValues_Inc_def split: option.splits)

lemma fst_Observe:
  "fst (WithLabelValues_Observe x l v s) =
     (if vars s x = None then Panic NilDereference
      else case validateLabelValues l of
             None \<Rightarrow> Return () | Some val \<Rightarrow> Panic (InvalidLabelValue val))"
  by (simp add: WithLabelValues_Observe_def split: option.splits)

lemma snd_Inc_refused: "validateLabelValues l = Some val \<Longrightarrow> snd (WithLabelValues_Inc x l s) = s"
  by (simp add: WithLabelValues_Inc_def split: option.splits)

lemma snd_Observe_refused: "validateLabelValues l = Some val \<Longrightarrow> snd (WithLabelValues_Observe x l v s) = s"
  by (simp add: WithLabelValues_Observe_def split: option.splits)

lemma vars_Inc_None: "vars (snd (WithLabelValues_Inc x l s)) y = None \<longleftrightarrow> vars s y = None"
  by (simp add: WithLabelValues_Inc_def split: option.splits)

lemma vars_Observe_None: "vars (snd (WithLabelValues_Observe x l v s)) y = None \<longleftrightarrow> vars s y = None"
  by (simp add: WithLabelValues_Observe_def split: option.splits)

lemma vars_Inc_Some:
  "(\<exists>m. vars (snd (WithLabelValues_Inc x l s)) y = Some m) \<longleftrightarrow> (\<exists>m. vars s y = Some m)"
  by (simp add: WithLabelValues_Inc_def split: option.splits)

lemma vars_Observe_Some:
  "(\<exists>m. vars (snd (WithLabelValues_Observe x l v s)) y = Some m) \<longleftrightarrow> (\<exists>m. vars s y = Some m)"
  by (simp add: WithLabelValues_Observe_def split: option.splits)

lemma frame_Inc:
  "world (snd (WithLabelValues_Inc x l s)) = world s"
  "allocs (snd (WithLabelValues_Inc x l s)) = allocs s"
  "DefaultMetricPrefix (snd (WithLabelValues_Inc x l s)) = DefaultMetricPrefix s"
  "DefaultLabelPrefix (snd (WithLabelValues_Inc x l s)) = DefaultLabelPrefix s"
  by (simp_all add: WithLabelValues_Inc_def split: option.splits)

lemma frame_Observe:
  "world (snd (WithLabelValues_Observe x l v s)) = world s"
  "allocs (snd (WithLabelValues_Observe x l v s)) = allocs s"
  "DefaultMetricPrefix (snd (WithLabelValues_Observe x l v s)) = DefaultMetricPrefix s"
  "DefaultLabelPrefix (snd (WithLabelValues_Observe x l v s)) = DefaultLabelPrefix s"
  by (simp_all add: WithLabelValues_Observe_def split: option.splits)

lemma counter_value_Inc:
  "counter_value (snd (WithLabelValues_Inc x l s)) y =
     (if y = x \<and> vars s x \<noteq> None \<and> validateLabelValues l = None
      then (counter_value s x)(l := counter_value s x l + 1)
      else counter_value s y)"
  by (auto simp: WithLabelValues_Inc_def counter_value_def fun_eq_iff split: option.splits)

lemma counter_value_Observe:
  "counter_value (snd (WithLabelValues_Observe x l v s)) y = counter_value s y"
  by (auto simp: WithLabelValues_Observe_def counter_value_def fun_eq_iff split: option.splits)

lemma observations_Inc:
  "observations (snd (WithLabelValues_Inc x l s)) y = observations s y"
  by (auto simp: WithLabelValues_Inc_def observations_def fun_eq_iff split: option.splits)

lemma observations_Observe:
  "observations (snd (WithLabelValues_Observe x l v s)) y =
     (if y = x \<and> vars s x \<noteq> None \<and> validateLabelValues l = None
      then (observations s x)(l := observations s x l @ [v])
      else observations s y)"
  by (auto simp: WithLabelValues_Observe_def observations_def fun_eq_iff split: option.splits)

lemmas step_simps = fst_Inc fst_Observe vars_Inc_None vars_Observe_None vars_Inc_Some vars_Observe_Some frame_Inc frame_Observe
  counter_value_Inc counter_value_Observe observations_Inc observations_Observe

lemma group_vars_distinct:
  "ops_counter g \<noteq> time_summary g" "ops_counter g \<noteq> time_histogram g"
  "time_summary g \<noteq> time_histogram g" "time_histogram g \<noteq> time_summary g"
  by (cases g; simp)+

lemma decorate_alt:
  "decorate B g lvs e f s =
     with_deferred (\<lambda>s'. latency_observer B g lvs (Seconds_since B (Now B (world s)) (world s')) s')
       (counted_call g lvs e f) s"
  by (simp add: decorate_def counted_call_def latency_observer_def ObserveDuration_def[abs_def] NewTimer_def)

lemma counted_call_Return:
  assumes "f s = (Return r, s1)"
  shows "counted_call g lvs e f s =
     (if vars s1 (ops_counter g) = None then Panic NilDereference
      else case validateLabelValues lvs of
             None \<Rightarrow> Return r | Some val \<Rightarrow> Panic (InvalidLabelValue val),
      snd (WithLabelValues_Inc (ops_counter g) (lvs @ [if e r = None then ''success'' else ''failure'']) s1))"
  using assms
  by (simp add: counted_call_def seq_alt ret_def fst_Inc validateLabelValues_status
        split: option.splits)

lemma counted_call_Panic:
  assumes "f s = (Panic p, s1)"
  shows "counted_call g lvs e f s = (Panic p, s1)"
  using assms by (simp add: counted_call_def seq_alt)

lemma counted_call_world: "world (snd (counted_call g lvs e f s)) = world (snd (f s))"
  by (cases "f s"; cases "fst (f s)") (simp_all add: counted_call_Return counted_call_Panic frame_Inc)

lemma counted_call_vars_None: "vars (snd (counted_call g lvs e f s)) y = None \<longleftrightarrow> vars (snd (f s)) y = None"
  by (cases "f s"; cases "fst (f s)") (simp_all add: counted_call_Return counted_call_Panic vars_Inc_None)

lemma counted_call_observations: "observations (snd (counted_call g lvs e f s)) y = observations (snd (f s)) y"
  by (cases "f s"; cases "fst (f s)") (simp_all add: counted_call_Return counted_call_Panic observations_Inc)

lemma counted_call_refused:
  assumes "validateLabelValues lvs = Some val"
  shows "snd (counted_call g lvs e f s) = snd (f s)"
  using assms
  by (cases "f s"; cases "fst (f s)")
     (simp_all add: counted_call_Return counted_call_Panic snd_Inc_refused validateLabelValues_status)

lemma fst_latency_observer:
  "fst (latency_observer B g lvs v s) =
     (if vars s (time_summary g) = None then Panic NilDereference
      else case validateLabelValues lvs of
             Some val \<Rightarrow> Panic (InvalidLabelValue val)
           | None \<Rightarrow> if vars s (time_histogram g) = None then Panic NilDereference else Return ())"
  by (simp add: latency_observer_def seq_alt fst_Observe vars_Observe_None split: option.splits)

lemma latency_observer_refused:
  assumes "validateLabelValues lvs = Some val"
  shows "snd (latency_observer B g lvs v s) = s"
  using assms
  by (simp add: latency_observer_def seq_alt fst_Observe snd_Observe_refused split: option.splits)

lemma latency_observer_world: "world (snd (latency_observer B g lvs v s)) = world s"
  by (simp add: latency_observer_def seq_alt fst_Observe frame_Observe split: option.splits)

lemma latency_observer_counter_value: "counter_value (snd (latency_observer B g lvs v s)) y = counter_value s y"
  by (simp add: latency_observer_def seq_alt fst_Observe counter_value_Observe split: option.splits)

lemma latency_observer_summary:
  assumes "vars s (time_summary g) \<noteq> None" and "validateLabelValues lvs = None"
  shows "observations (snd (latency_observer B g lvs v s)) (time_summary g) =
           (observations s (time_summary g))
             (lvs := observations s (time_summary g) lvs @ [fmul B v (fconst B 1000000)])"
  using assms
  by (auto simp: latency_observer_def seq_alt fst_Observe observations_Observe group_vars_distinct)

lemma latency_observer_histogram:
  assumes "vars s (time_summary g) \<noteq> None" and "vars s (time_histogram g) \<noteq> None"
      and "validateLabelValues lvs = None"
  shows "observations (snd (latency_observer B g lvs v s)) (time_histogram g) =
           (observations s (time_histogram g))
             (lvs := observations s (time_histogram g) lvs @ [v])"
  using assms
  by (auto simp: latency_observer_def seq_alt fst_Observe observations_Observe vars_Observe_None
        group_vars_distinct)

lemma fst_with_deferred:
  "fst (with_deferred d b s) =
     (case fst (d (snd (b s))) of Return u \<Rightarrow> fst (b s) | Panic p \<Rightarrow> Panic p)"
  by (simp add: with_deferred_alt split: outcome.splits)

lemma snd_with_deferred: "snd (with_deferred d b s) = snd (d (snd (b s)))"
  by (simp add: with_deferred_alt split: outcome.splits)

lemma decorate_fst:
  assumes "registered g (snd (f s))" and "validateLabelValues lvs = None"
  shows "fst (decorate B g lvs e f s) = fst (f s)"
proof -
  from assms have "fst (latency_observer B g lvs v (snd (counted_call g lvs e f s))) = Return ()" for v
    by (simp add: fst_latency_observer counted_call_vars_None registered_def)
  moreover from assms have "fst (counted_call g lvs e f s) = fst (f s)"
    by (cases "f s"; cases "fst (f s)") (simp_all add: counted_call_Return counted_call_Panic registered_def)
  ultimately show ?thesis
    by (simp add: decorate_alt fst_with_deferred)
qed

lemma decorate_refused:
  assumes "validateLabelValues lvs = Some val"
  shows "snd (decorate B g lvs e f s) = snd (f s)"
    and "vars (snd (f s)) (time_summary g) \<noteq> None \<Longrightarrow>
           fst (decorate B g lvs e f s) = Panic (InvalidLabelValue val)"
  using assms
  by (simp_all add: decorate_alt snd_with_deferred fst_with_deferred latency_observer_refused
        counted_call_refused fst_latency_observer)

lemma decorate_world: "world (snd (decorate B g lvs e f s)) = world (snd (f s))"
  by (simp add: decorate_alt snd_with_deferred latency_observer_world counted_call_world)

lemma decorate_counter:
  assumes "f s = (Return r, s1)" and "vars s1 (ops_counter g) \<noteq> None"
      and "validateLabelValues lvs = None"
  shows "counter_value (snd (decorate B g lvs e f s)) (ops_counter g) =
           (counter_value s1 (ops_counter g))
             (lvs @ [if e r = None then ''success'' else ''failure''] :=
                counter_value s1 (ops_counter g) (lvs @ [if e r = None then ''success'' else ''failure'']) + 1)"
  using assms
  by (simp add: decorate_alt snd_with_deferred latency_observer_counter_value counted_call_Return
        counter_value_Inc validateLabelValues_status)

lemma decorate_counter_Panic:
  assumes "f s = (Panic p, s1)"
  shows "counter_value (snd (decorate B g lvs e f s)) x = counter_value s1 x"
  using assms
  by (simp add: decorate_alt snd_with_deferred latency_observer_counter_value counted_call_Panic)

lemma decorate_summary:
  assumes "vars (snd (f s)) (time_summary g) \<noteq> None" and "validateLabelValues lvs = None"
  shows "observations (snd (decorate B g lvs e f s)) (time_summary g) =
           (observations (snd (f s)) (time_summary g))
             (lvs := observations (snd (f s)) (time_summary g) lvs @
                [fmul B (Seconds_since B (Now B (world s)) (world (snd (f s)))) (fconst B 1000000)])"
  using assms
  by (simp add: decorate_alt snd_with_deferred latency_observer_summary counted_call_vars_None counted_call_world
        counted_call_observations)

lemma decorate_histogram:
  assumes "vars (snd (f s)) (time_summary g) \<noteq> None"
      and "vars (snd (f s)) (time_histogram g) \<noteq> None"
      and "validateLabelValues lvs = None"
  shows "observations (snd (decorate B g lvs e f s)) (time_histogram g) =
           (observations (snd (f s)) (time_histogram g))
             (lvs := observations (snd (f s)) (time_histogram g) lvs @
                [Seconds_since B (Now B (world s)) (world (snd (f s)))])"
  using assms
  by (simp add: decorate_alt snd_with_deferred latency_observer_histogram counted_call_vars_None counted_call_world
        counted_call_observations)

subsection \<open>Effects of a decorated invocation\<close>

lemma decorate_counter_other:
  assumes "x \<noteq> ops_counter g"
  shows "counter_value (snd (decorate B g lvs e f s)) x = counter_value (snd (f s)) x"
  using assms
  by (cases "f s"; cases "fst (f s)")
     (simp_all add: decorate_alt snd_with_deferred latency_observer_counter_value
        counted_call_Return counted_call_Panic counter_value_Inc)

lemma decorate_observations_other:
  assumes "x \<noteq> time_summary g" and "x \<noteq> time_histogram g"
  shows "observations (snd (decorate B g lvs e f s)) x = observations (snd (f s)) x"
  using assms
  by (simp add: decorate_alt snd_with_deferred latency_observer_def seq_alt fst_Observe
        observations_Observe counted_call_observations split: outcome.splits option.splits)

lemma decorated_counter:
  assumes "wrapped iv s = (Return r, s1)" and "vars s1 (ops_counter (group_of iv)) \<noteq> None"
      and "list_all ValidString (label_values iv)"
  shows "counter_value (snd (decorated B iv s)) (ops_counter (group_of iv)) =
           (counter_value s1 (ops_counter (group_of iv)))
             (label_values iv @ [if error_of r = None then ''success'' else ''failure''] :=
                counter_value s1 (ops_counter (group_of iv))
                  (label_values iv @ [if error_of r = None then ''success'' else ''failure'']) + 1)"
  using assms decorate_counter[where f = "wrapped iv" and s = s and g = "group_of iv" and B = B
      and lvs = "label_values iv" and e = error_of and r = r and ?s1.0 = s1]
  by (simp add: decorated_decorate validateLabelValues_None)

lemma decorated_summary:
  assumes "vars (snd (wrapped iv s)) (time_summary (group_of iv)) \<noteq> None"
      and "list_all ValidString (label_values iv)"
  shows "observations (snd (decorated B iv s)) (time_summary (group_of iv)) =
           (observations (snd (wrapped iv s)) (time_summary (group_of iv)))
             (label_values iv := observations (snd (wrapped iv s)) (time_summary (group_of iv)) (label_values iv) @
                [fmul B (Seconds_since B (Now B (world s)) (world (snd (wrapped iv s)))) (fconst B 1000000)])"
  using decorate_summary[of "wrapped iv" s "group_of iv" "label_values iv" B error_of] assms
  by (simp add: decorated_decorate validateLabelValues_None)

lemma decorated_histogram:
  assumes "vars (snd (wrapped iv s)) (time_summary (group_of iv)) \<noteq> None"
      and "vars (snd (wrapped iv s)) (time_histogram (group_of iv)) \<noteq> None"
      and "list_all ValidString (label_values iv)"
  shows "observations (snd (decorated B iv s)) (time_histogram (group_of iv)) =
           (observations (snd (wrapped iv s)) (time_histogram (group_of iv)))
             (label_values iv := observations (snd (wrapped iv s)) (time_histogram (group_of iv)) (label_values iv) @
                [Seconds_since B (Now B (world s)) (world (snd (wrapped iv s)))])"
  using decorate_histogram[of "wrapped iv" s "group_of iv" "label_values iv" B error_of] assms
  by (simp add: decorated_decorate validateLabelValues_None)

lemma decorated_counter_Panic:
  assumes "wrapped iv s = (Panic p, s1)"
  shows "counter_value (snd (decorated B iv s)) x = counter_value s1 x"
  using assms decorate_counter_Panic[where f = "wrapped iv" and s = s and g = "group_of iv"
      and B = B and lvs = "label_values iv" and e = error_of and p = p and ?s1.0 = s1 and x = x]
  by (simp add: decorated_decorate)

lemma decorated_refused:
  assumes "\<not> list_all ValidString (label_values iv)"
  shows "snd (decorated B iv s) = snd (wrapped iv s)"
    and "vars (snd (wrapped iv s)) (time_summary (group_of iv)) \<noteq> None \<Longrightarrow>
           \<exists>val. fst (decorated B iv s) = Panic (InvalidLabelValue val)"
proof -
  from assms obtain val where v: "validateLabelValues (label_values iv) = Some val"
    by (cases "validateLabelValues (label_values iv)") (simp_all add: validateLabelValues_None)
  show "snd (decorated B iv s) = snd (wrapped iv s)"
    using decorate_refused(1)[where lvs = "label_values iv" and val = val and f = "wrapped iv"
        and s = s and g = "group_of iv" and B = B and e = error_of, OF v]
    by (simp only: decorated_decorate)
  show "\<exists>val. fst (decorated B iv s) = Panic (InvalidLabelValue val)"
    if "vars (snd (wrapped iv s)) (time_summary (group_of iv)) \<noteq> None"
    using decorate_refused(2)[where lvs = "label_values iv" and val = val and f = "wrapped iv"
        and s = s and g = "group_of iv" and B = B and e = error_of, OF v that]
    by (simp only: decorated_decorate) blast
qed

subsection \<open>The concrete setting\<close>

lemma opts_Name_new_family: "opts_Name (new_family x s i) = DefaultMetricPrefix s @ family_suffix x"
  by (cases "family_kind x")
     (simp_all add: new_family_def NewCounterVec_def NewSummaryVec_def NewHistogramVec_def)

lemma ready_state_eq:
  "ready_state g =
     (init_group g (initial_state (0, [])))
       \<lparr>world := (0, [''micro_'' @ family_suffix (ops_counter g),
                      ''micro_'' @ family_suffix (time_summary g),
                      ''micro_'' @ family_suffix (time_histogram g)])\<rparr>"
  unfolding ready_state_def register_metrics_eq
  by (cases g)
     (simp_all add: collectors_def init_group_def
        init_var_simps example_backend_def initial_state_def opts_Name_new_family)

lemma registered_ready_state: "registered g (ready_state g)"
  using registered_init_group[of g "initial_state (0, [])"]
  by (simp add: ready_state_eq registered_def)

lemma new_family_data:
  "counts (new_family x s i) = (\<lambda>lvs. 0)" "observed (new_family x s i) = (\<lambda>lvs. [])"
  by (cases "family_kind x";
      simp add: new_family_def NewCounterVec_def NewSummaryVec_def NewHistogramVec_def)+

lemma vars_ready_state:
  "vars (ready_state g) x =
     vars (init_group g (initial_state (0, []) :: (real, nat \<times> string list) state)) x"
  by (simp add: ready_state_eq)

lemma ready_state_data:
  "counter_value (ready_state g) x = (\<lambda>lvs. 0)" "observations (ready_state g) x = (\<lambda>lvs. [])"
  by (auto simp: counter_value_def observations_def vars_ready_state init_group_def init_var_simps
        initial_state_def new_family_data fun_eq_iff split: option.splits if_splits)

lemma world_ready_state:
  "world (ready_state g) =
     (0, [''micro_'' @ family_suffix (ops_counter g), ''micro_'' @ family_suffix (time_summary g),
          ''micro_'' @ family_suffix (time_histogram g)])"
  by (simp add: ready_state_eq)

lemma example_options_simps:
  "Name (options example_wrapper) = ''svc''" "Version (options example_wrapper) = ''v1''"
  "ID (options example_wrapper) = ''i1''" "Context (options example_wrapper) = Background"
  by (simp_all add: example_wrapper_def apply_options_def example_options_def ServiceName_def
        ServiceVersion_def ServiceID_def)

lemma example_wrapper_simps:
  "callFunc example_wrapper = Some (\<lambda>c addr req rsp opts. slow_success)"
  "Client example_wrapper =
     Some \<lparr>client_Call = (\<lambda>c req rsp opts. slow_success),
           client_Stream = (\<lambda>c req opts s. (Return (7, None), s)),
           client_Publish = (\<lambda>c p opts. failure)\<rparr>"
  by (simp_all add: example_wrapper_def)

lemma snd_as_result: "snd (as_result F m s) = snd (m s)"
  by (simp add: as_result_def split: prod.splits)

lemma as_result_Return: "m s = (Return a, s1) \<Longrightarrow> as_result F m s = (Return (F a), s1)"
  by (simp add: as_result_def)

lemma decorated_recorded_under:
  assumes w: "wrapped iv s = (Return r, s1)" and reg: "registered (group_of iv) s1"
      and ok: "list_all ValidString (label_values iv)"
  shows "recorded_under s1 (snd (decorated B iv s)) (group_of iv) (label_values iv)
           (if error_of r = None then ''success'' else ''failure'')"
proof -
  let ?g = "group_of iv" and ?s2 = "snd (decorated B iv s)"
  from reg have c: "vars s1 (ops_counter ?g) \<noteq> None"
    and sm: "vars (snd (wrapped iv s)) (time_summary ?g) \<noteq> None"
    and hi: "vars (snd (wrapped iv s)) (time_histogram ?g) \<noteq> None"
    by (simp_all add: registered_def w)
  have s1: "snd (wrapped iv s) = s1" by (simp add: w)
  have oc: "observations ?s2 (ops_counter ?g) = observations s1 (ops_counter ?g)"
    using decorate_observations_other[of "ops_counter ?g" ?g B "label_values iv" error_of "wrapped iv" s]
    by (simp only: decorated_decorate s1 group_vars_distinct simp_thms)
  have cs: "counter_value ?s2 (time_summary ?g) = counter_value s1 (time_summary ?g)"
    using decorate_counter_other[of "time_summary ?g" ?g B "label_values iv" error_of "wrapped iv" s]
      group_vars_distinct(1)[of ?g]
    by (simp only: decorated_decorate s1) simp
  have ch: "counter_value ?s2 (time_histogram ?g) = counter_value s1 (time_histogram ?g)"
    using decorate_counter_other[of "time_histogram ?g" ?g B "label_values iv" error_of "wrapped iv" s]
      group_vars_distinct(2)[of ?g]
    by (simp only: decorated_decorate s1) simp
  have 1: "touched s1 ?s2 (ops_counter ?g) =
             {label_values iv @ [if error_of r = None then ''success'' else ''failure'']}"
    unfolding touched_def oc decorated_counter[OF w c ok, of B] by auto
  have 2: "touched s1 ?s2 (time_summary ?g) = {label_values iv}"
    unfolding touched_def cs decorated_summary[OF sm ok, of B] s1 by auto
  have 3: "touched s1 ?s2 (time_histogram ?g) = {label_values iv}"
    unfolding touched_def ch decorated_histogram[OF sm hi ok, of B] s1 by auto
  from 1 2 3 show ?thesis by (simp only: recorded_under_def simp_thms)
qed

lemma latency_observer_elsewhere:
  "l \<noteq> lvs \<Longrightarrow> observations (snd (latency_observer B g lvs v s)) y l = observations s y l"
  by (simp add: latency_observer_def seq_alt fst_Observe observations_Observe
        split: option.splits)

lemma counted_call_elsewhere:
  assumes "l \<noteq> lvs @ [''success'']" and "l \<noteq> lvs @ [''failure'']"
  shows "counter_value (snd (counted_call g lvs e f s)) y l = counter_value (snd (f s)) y l"
  using assms
  by (cases "f s"; cases "fst (f s)")
     (simp_all add: counted_call_Return counted_call_Panic counter_value_Inc)

lemma decorate_recorded_at_most:
  "recorded_at_most (snd (f s)) (snd (decorate B g lvs e f s)) g lvs"
proof -
  let ?s1 = "snd (f s)" and ?s2 = "snd (decorate B g lvs e f s)"
  have oc: "observations ?s2 (ops_counter g) = observations ?s1 (ops_counter g)"
    using decorate_observations_other[of "ops_counter g" g B lvs e f s]
    by (simp add: group_vars_distinct)
  have cs: "counter_value ?s2 x = counter_value ?s1 x" if "x \<noteq> ops_counter g" for x
    using that by (rule decorate_counter_other)
  have c: "counter_value ?s2 (ops_counter g) l = counter_value ?s1 (ops_counter g) l"
    if "l \<noteq> lvs @ [''success'']" and "l \<noteq> lvs @ [''failure'']" for l
    using that
    by (simp add: decorate_alt snd_with_deferred latency_observer_counter_value
          counted_call_elsewhere)
  have ob: "observations ?s2 x l = observations ?s1 x l" if "l \<noteq> lvs" for x l
    using that
    by (simp add: decorate_alt snd_with_deferred latency_observer_elsewhere
          counted_call_observations)
  have 1: "touched ?s1 ?s2 (ops_counter g) \<subseteq> {lvs @ [''success''], lvs @ [''failure'']}"
    unfolding touched_def oc using c by auto
  have 2: "touched ?s1 ?s2 (time_summary g) \<subseteq> {lvs}"
    unfolding touched_def cs[OF group_vars_distinct(1)[symmetric]] using ob by auto
  have 3: "touched ?s1 ?s2 (time_histogram g) \<subseteq> {lvs}"
    unfolding touched_def cs[OF group_vars_distinct(2)[symmetric]] using ob by auto
  from 1 2 3 show ?thesis by (simp only: recorded_at_most_def simp_thms)
qed

lemma decorated_recorded_at_most:
  "recorded_at_most (snd (wrapped iv s)) (snd (decorated B iv s)) (group_of iv) (label_values iv)"
  using decorate_recorded_at_most[of "wrapped iv" s B "group_of iv" "label_values iv" error_of]
  by (simp only: decorated_decorate)

lemma decorate_observed_in:
  assumes "vars (snd (f s)) (time_summary g) \<noteq> None"
      and "vars (snd (f s)) (time_histogram g) \<noteq> None"
  shows "observed_in (snd (f s)) (snd (decorate B g lvs e f s)) (time_summary g) lvs =
           map (\<lambda>v. fmul B v (fconst B 1000000))
             (observed_in (snd (f s)) (snd (decorate B g lvs e f s)) (time_histogram g) lvs)"
proof (cases "validateLabelValues lvs")
  case None
  from decorate_summary[where f = f and s = s and g = g and lvs = lvs and B = B and e = e,
      OF assms(1) None]
    decorate_histogram[where f = f and s = s and g = g and lvs = lvs and B = B and e = e,
      OF assms None]
  show ?thesis by (simp add: observed_in_def)
next
  case (Some val)
  from decorate_refused(1)[where lvs = lvs and val = val and B = B and g = g and e = e
      and f = f and s = s, OF Some]
  show ?thesis
    by (simp add: observed_in_def)
qed

lemma decorated_observed_in:
  assumes "vars (snd (wrapped iv s)) (time_summary (group_of iv)) \<noteq> None"
      and "vars (snd (wrapped iv s)) (time_histogram (group_of iv)) \<noteq> None"
  shows "observed_in (snd (wrapped iv s)) (snd (decorated B iv s)) (time_summary (group_of iv))
           (label_values iv) =
         map (\<lambda>v. fmul B v (fconst B 1000000))
           (observed_in (snd (wrapped iv s)) (snd (decorated B iv s))
              (time_histogram (group_of iv)) (label_values iv))"
  using decorate_observed_in[where f = "wrapped iv" and s = s and g = "group_of iv" and B = B
      and lvs = "label_values iv" and e = error_of, OF assms]
  by (simp only: decorated_decorate)

lemma decorated_observed_once:
  assumes "vars (snd (wrapped iv s)) (time_summary (group_of iv)) \<noteq> None"
      and "vars (snd (wrapped iv s)) (time_histogram (group_of iv)) \<noteq> None"
      and "list_all ValidString (label_values iv)"
  shows "observed_in (snd (wrapped iv s)) (snd (decorated B iv s)) (time_histogram (group_of iv))
           (label_values iv) = [Seconds_since B (Now B (world s)) (world (snd (wrapped iv s)))]"
  using decorated_histogram[OF assms, of B] by (simp add: observed_in_def)

lemma CallFunc_recorded:
  assumes a: "callFunc w = Some fn" "fn c addr (Some req) rsp copts s = (r, s1)"
  shows "recorded_at_most s1 (snd (CallFunc B w c addr (Some req) rsp copts s)) ClientGroup
           [Name (options w), Version (options w), ID (options w), Service req @ ''.'' @ Endpoint req]"
    and "r = Return err \<Longrightarrow> registered ClientGroup s1 \<Longrightarrow>
         list_all ValidString [Name (options w), Version (options w), ID (options w), Service req @ ''.'' @ Endpoint req] \<Longrightarrow>
         recorded_under s1 (snd (CallFunc B w c addr (Some req) rsp copts s)) ClientGroup
           [Name (options w), Version (options w), ID (options w), Service req @ ''.'' @ Endpoint req]
           (if err = None then ''success'' else ''failure'')"
proof -
  have w: "wrapped (InvCallFunc w c addr req rsp copts) s = (map_outcome ErrorResult r, s1)"
    using a by (simp add: as_result_def)
  show "recorded_at_most s1 (snd (CallFunc B w c addr (Some req) rsp copts s)) ClientGroup
           [Name (options w), Version (options w), ID (options w), Service req @ ''.'' @ Endpoint req]"
    using decorated_recorded_at_most[of "InvCallFunc w c addr req rsp copts" s B]
    by (simp only: w snd_conv) (simp add: snd_as_result label_values_def)
  assume b: "r = Return err" "registered ClientGroup s1"
    "list_all ValidString [Name (options w), Version (options w), ID (options w), Service req @ ''.'' @ Endpoint req]"
  have w': "wrapped (InvCallFunc w c addr req rsp copts) s = (Return (ErrorResult err), s1)"
    unfolding w using b(1) by (simp add: stream_result_def)
  show "recorded_under s1 (snd (CallFunc B w c addr (Some req) rsp copts s)) ClientGroup
           [Name (options w), Version (options w), ID (options w), Service req @ ''.'' @ Endpoint req]
           (if err = None then ''success'' else ''failure'')"
    using decorated_recorded_under[of "InvCallFunc w c addr req rsp copts" s "ErrorResult err" s1 B] w' b(2,3)
    by (simp add: snd_as_result label_values_def del: wrapped.simps ValidString.simps)
qed

lemma Call_recorded:
  assumes a: "Client w = Some cl" "client_Call cl c (Some req) rsp opts s = (r, s1)"
  shows "recorded_at_most s1 (snd (Call B w c (Some req) rsp opts s)) ClientGroup
           [Name (options w), Version (options w), ID (options w), Service req @ ''.'' @ Endpoint req]"
    and "r = Return err \<Longrightarrow> registered ClientGroup s1 \<Longrightarrow>
         list_all ValidString [Name (options w), Version (options w), ID (options w), Service req @ ''.'' @ Endpoint req] \<Longrightarrow>
         recorded_under s1 (snd (Call B w c (Some req) rsp opts s)) ClientGroup
           [Name (options w), Version (options w), ID (options w), Service req @ ''.'' @ Endpoint req]
           (if err = None then ''success'' else ''failure'')"
proof -
  have w: "wrapped (InvCall w c req rsp opts) s = (map_outcome ErrorResult r, s1)"
    using a by (simp add: as_result_def)
  show "recorded_at_most s1 (snd (Call B w c (Some req) rsp opts s)) ClientGroup
           [Name (options w), Version (options w), ID (options w), Service req @ ''.'' @ Endpoint req]"
    using decorated_recorded_at_most[of "InvCall w c req rsp opts" s B]
    by (simp only: w snd_conv) (simp add: snd_as_result label_values_def)
  assume b: "r = Return err" "registered ClientGroup s1"
    "list_all ValidString [Name (options w), Version (options w), ID (options w), Service req @ ''.'' @ Endpoint req]"
  have w': "wrapped (InvCall w c req rsp opts) s = (Return (ErrorResult err), s1)"
    unfolding w using b(1) by (simp add: stream_result_def)
  show "recorded_under s1 (snd (Call B w c (Some req) rsp opts s)) ClientGroup
           [Name (options w), Version (options w), ID (options w), Service req @ ''.'' @ Endpoint req]
           (if err = None then ''success'' else ''failure'')"
    using decorated_recorded_under[of "InvCall w c req rsp opts" s "ErrorResult err" s1 B] w' b(2,3)
    by (simp add: snd_as_result label_values_def del: wrapped.simps ValidString.simps)
qed

lemma Stream_recorded:
  assumes a: "Client w = Some cl" "client_Stream cl c (Some req) opts s = (rs, s1)"
  shows "recorded_at_most s1 (snd (Stream B w c (Some req) opts s)) ClientGroup
           [Name (options w), Version (options w), ID (options w), Service req @ ''.'' @ Endpoint req]"
    and "rs = Return (st, err) \<Longrightarrow> registered ClientGroup s1 \<Longrightarrow>
         list_all ValidString [Name (options w), Version (options w), ID (options w), Service req @ ''.'' @ Endpoint req] \<Longrightarrow>
         recorded_under s1 (snd (Stream B w c (Some req) opts s)) ClientGroup
           [Name (options w), Version (options w), ID (options w), Service req @ ''.'' @ Endpoint req]
           (if err = None then ''success'' else ''failure'')"
proof -
  have w: "wrapped (InvStream w c req opts) s = (map_outcome stream_result rs, s1)"
    using a by (simp add: as_result_def)
  show "recorded_at_most s1 (snd (Stream B w c (Some req) opts s)) ClientGroup
           [Name (options w), Version (options w), ID (options w), Service req @ ''.'' @ Endpoint req]"
    using decorated_recorded_at_most[of "InvStream w c req opts" s B]
    by (simp only: w snd_conv) (simp add: snd_as_result label_values_def)
  assume b: "rs = Return (st, err)" "registered ClientGroup s1"
    "list_all ValidString [Name (options w), Version (options w), ID (options w), Service req @ ''.'' @ Endpoint req]"
  have w': "wrapped (InvStream w c req opts) s = (Return (StreamResult st err), s1)"
    unfolding w using b(1) by (simp add: stream_result_def)
  show "recorded_under s1 (snd (Stream B w c (Some req) opts s)) ClientGroup
           [Name (options w), Version (options w), ID (options w), Service req @ ''.'' @ Endpoint req]
           (if err = None then ''success'' else ''failure'')"
    using decorated_recorded_under[of "InvStream w c req opts" s "StreamResult st err" s1 B] w' b(2,3)
    by (simp add: snd_as_result label_values_def del: wrapped.simps ValidString.simps)
qed

lemma Publish_recorded:
  assumes a: "Client w = Some cl" "client_Publish cl c (Some p) popts s = (r, s1)"
  shows "recorded_at_most s1 (snd (Publish B w c (Some p) popts s)) PublishGroup
           [Name (options w), Version (options w), ID (options w), Topic p]"
    and "r = Return err \<Longrightarrow> registered PublishGroup s1 \<Longrightarrow>
         list_all ValidString [Name (options w), Version (options w), ID (options w), Topic p] \<Longrightarrow>
         recorded_under s1 (snd (Publish B w c (Some p) popts s)) PublishGroup
           [Name (options w), Version (options w), ID (options w), Topic p]
           (if err = None then ''success'' else ''failure'')"
proof -
  have w: "wrapped (InvPublish w c p popts) s = (map_outcome ErrorResult r, s1)"
    using a by (simp add: as_result_def)
  show "recorded_at_most s1 (snd (Publish B w c (Some p) popts s)) PublishGroup
           [Name (options w), Version (options w), ID (options w), Topic p]"
    using decorated_recorded_at_most[of "InvPublish w c p popts" s B]
    by (simp only: w snd_conv) (simp add: snd_as_result label_values_def)
  assume b: "r = Return err" "registered PublishGroup s1"
    "list_all ValidString [Name (options w), Version (options w), ID (options w), Topic p]"
  have w': "wrapped (InvPublish w c p popts) s = (Return (ErrorResult err), s1)"
    unfolding w using b(1) by (simp add: stream_result_def)
  show "recorded_under s1 (snd (Publish B w c (Some p) popts s)) PublishGroup
           [Name (options w), Version (options w), ID (options w), Topic p]
           (if err = None then ''success'' else ''failure'')"
    using decorated_recorded_under[of "InvPublish w c p popts" s "ErrorResult err" s1 B] w' b(2,3)
    by (simp add: snd_as_result label_values_def del: wrapped.simps ValidString.simps)
qed

lemma HandlerFunc_recorded:
  assumes a: "hf c (Some req) rsp s = (r, s1)"
  shows "recorded_at_most s1 (snd (HandlerFunc B w (Some hf) c (Some req) rsp s)) ServerGroup
           [Name (options w), Version (options w), ID (options w), Endpoint req]"
    and "r = Return err \<Longrightarrow> registered ServerGroup s1 \<Longrightarrow>
         list_all ValidString [Name (options w), Version (options w), ID (options w), Endpoint req] \<Longrightarrow>
         recorded_under s1 (snd (HandlerFunc B w (Some hf) c (Some req) rsp s)) ServerGroup
           [Name (options w), Version (options w), ID (options w), Endpoint req]
           (if err = None then ''success'' else ''failure'')"
proof -
  have w: "wrapped (InvHandler w (Some hf) c req rsp) s = (map_outcome ErrorResult r, s1)"
    using a by (simp add: as_result_def)
  show "recorded_at_most s1 (snd (HandlerFunc B w (Some hf) c (Some req) rsp s)) ServerGroup
           [Name (options w), Version (options w), ID (options w), Endpoint req]"
    using decorated_recorded_at_most[of "InvHandler w (Some hf) c req rsp" s B]
    by (simp only: w snd_conv) (simp add: snd_as_result label_values_def)
  assume b: "r = Return err" "registered ServerGroup s1"
    "list_all ValidString [Name (options w), Version (options w), ID (options w), Endpoint req]"
  have w': "wrapped (InvHandler w (Some hf) c req rsp) s = (Return (ErrorResult err), s1)"
    unfolding w using b(1) by (simp add: stream_result_def)
  show "recorded_under s1 (snd (HandlerFunc B w (Some hf) c (Some req) rsp s)) ServerGroup
           [Name (options w), Version (options w), ID (options w), Endpoint req]
           (if err = None then ''success'' else ''failure'')"
    using decorated_recorded_under[of "InvHandler w (Some hf) c req rsp" s "ErrorResult err" s1 B] w' b(2,3)
    by (simp add: snd_as_result label_values_def del: wrapped.simps ValidString.simps)
qed

lemma SubscriberFunc_recorded:
  assumes a: "sf c (Some msg) s = (r, s1)"
  shows "recorded_at_most s1 (snd (SubscriberFunc B w (Some sf) c (Some msg) s)) SubscribeGroup
           [Name (options w), Version (options w), ID (options w), Topic msg]"
    and "r = Return err \<Longrightarrow> registered SubscribeGroup s1 \<Longrightarrow>
         list_all ValidString [Name (options w), Version (options w), ID (options w), Topic msg] \<Longrightarrow>
         recorded_under s1 (snd (SubscriberFunc B w (Some sf) c (Some msg) s)) SubscribeGroup
           [Name (options w), Version (options w), ID (options w), Topic msg]
           (if err = None then ''success'' else ''failure'')"
proof -
  have w: "wrapped (InvSubscriber w (Some sf) c msg) s = (map_outcome ErrorResult r, s1)"
    using a by (simp add: as_result_def)
  show "recorded_at_most s1 (snd (SubscriberFunc B w (Some sf) c (Some msg) s)) SubscribeGroup
           [Name (options w), Version (options w), ID (options w), Topic msg]"
    using decorated_recorded_at_most[of "InvSubscriber w (Some sf) c msg" s B]
    by (simp only: w snd_conv) (simp add: snd_as_result label_values_def)
  assume b: "r = Return err" "registered SubscribeGroup s1"
    "list_all ValidString [Name (options w), Version (options w), ID (options w), Topic msg]"
  have w': "wrapped (InvSubscriber w (Some sf) c msg) s = (Return (ErrorResult err), s1)"
    unfolding w using b(1) by (simp add: stream_result_def)
  show "recorded_under s1 (snd (SubscriberFunc B w (Some sf) c (Some msg) s)) SubscribeGroup
           [Name (options w), Version (options w), ID (options w), Topic msg]
           (if err = None then ''success'' else ''failure'')"
    using decorated_recorded_under[of "InvSubscriber w (Some sf) c msg" s "ErrorResult err" s1 B] w' b(2,3)
    by (simp add: snd_as_result label_values_def del: wrapped.simps ValidString.simps)
qed


lemma observations_world_update: "observations (s\<lparr>world := w\<rparr>) x = observations s x"
  by (rule ext) (simp add: observations_def)

lemma counter_value_world_update: "counter_value (s\<lparr>world := w\<rparr>) x = counter_value s x"
  by (rule ext) (simp add: counter_value_def)

lemma ValidString_examples:
  "ValidString ''svc''" "ValidString ''v1''" "ValidString ''i1''" "ValidString ''Hello''"
  "ValidString ''Greeter.Hello''" "ValidString ''events''" "ValidString []"
  by (simp_all add: rune_width_def byte_in_def)

lemma ValidString_malformed:
  "\<not> ValidString [CHR 0xFF]" "\<not> ValidString (CHR 0xFF # ''.Hello'')"
  by (simp_all add: rune_width_def byte_in_def)

lemma registered_init_group_keep: "registered g s \<Longrightarrow> registered g (init_group h s)"
  by (simp add: registered_def vars_init_group_keep)

lemma registered_all_ready_state: "registered g all_ready_state"
  unfolding all_ready_state_def
  by (cases g) (simp_all add: registered_init_group registered_init_group_keep)

lemma failing_wrapper_simps:
  "Name (options failing_wrapper) = ''svc''" "Version (options failing_wrapper) = ''v1''"
  "ID (options failing_wrapper) = ''i1''"
  "callFunc failing_wrapper = Some (\<lambda>c addr req rsp opts. failure)"
  "Client failing_wrapper =
     Some \<lparr>client_Call = (\<lambda>c req rsp opts. failure),
           client_Stream = (\<lambda>c req opts s. (Return (7, Some ''unavailable''), s)),
           client_Publish = (\<lambda>c p opts. failure)\<rparr>"
  by (simp_all add: failing_wrapper_def apply_options_def example_options_def ServiceName_def
        ServiceVersion_def ServiceID_def)

lemma register_collectors_Inl:
  "register_collectors B c cs s = Inl e \<Longrightarrow>
     \<exists>msg. e = Fatal c msg \<and> Some (OtherError msg) \<in> set (answers B (world s) cs)"
proof (induction cs arbitrary: s)
  case Nil
  then show ?case by simp
next
  case (Cons collector rest)
  obtain a w where r: "Register B (world s) collector = (a, w)"
    by (cases "Register B (world s) collector")
  show ?case
  proof (cases a rule: benign.cases)
    case 1
    with Cons.prems r have "register_collectors B c rest (s\<lparr>world := w\<rparr>) = Inl e" by simp
    from Cons.IH[OF this] r show ?thesis by auto
  next
    case 2
    with Cons.prems r have "register_collectors B c rest (s\<lparr>world := w\<rparr>) = Inl e" by simp
    from Cons.IH[OF this] r show ?thesis by auto
  next
    case (3 msg)
    with Cons.prems r show ?thesis by auto
  qed
qed

lemma register_metrics_Inr:
  assumes "register_metrics g B c s = Inr s'"
  shows "s' = (init_group g s)\<lparr>world := registrations B (collectors g (init_group g s)) (world s)\<rparr>"
    and "list_all benign (answers B (world s) (collectors g (init_group g s)))"
  using register_collectors_Inr[of B c "collectors g (init_group g s)" "init_group g s" s'] assms
  by (simp_all add: register_metrics_eq init_group_simps)

lemma registered_world_update: "registered g (s\<lparr>world := w\<rparr>) = registered g s"
  by (simp add: registered_def)

lemma register_metrics_registered:
  assumes "register_metrics g B c s = Inr s'"
  shows "registered g s'"
  by (subst register_metrics_Inr(1)[OF assms])
     (simp add: registered_world_update registered_init_group)

lemma register_metrics_keeps_registered:
  assumes "register_metrics g B c s = Inr s'" and "registered h s"
  shows "registered h s'"
  by (subst register_metrics_Inr(1)[OF assms(1)])
     (simp add: registered_world_update registered_init_group_keep assms(2))

lemma register_metrics_again:
  assumes "registered g s" and "register_metrics g B c s = Inr s'"
  shows "vars s' = vars s" "allocs s' = allocs s"
    "DefaultMetricPrefix s' = DefaultMetricPrefix s" "DefaultLabelPrefix s' = DefaultLabelPrefix s"
  using register_metrics_Inr(1)[OF assms(2)] assms(1)
  by (simp_all add: init_group_idem)

lemma NewClientWrapper_eq:
  "NewClientWrapper B opts s =
     (case register_metrics ClientGroup B (Context (apply_options opts)) s of
        Inl e \<Rightarrow> Inl e
      | Inr s1 \<Rightarrow>
         (case register_metrics PublishGroup B (Context (apply_options opts)) s1 of
            Inl e \<Rightarrow> Inl e
          | Inr s2 \<Rightarrow>
             Inr (\<lambda>c. \<lparr>options = apply_options opts, callFunc = None, Client = c\<rparr>, s2)))"
  by (simp add: NewClientWrapper_def Let_def cong: sum.case_cong)

lemma NewCallWrapper_eq:
  "NewCallWrapper B opts s =
     (case register_metrics ClientGroup B (Context (apply_options opts)) s of
        Inl e \<Rightarrow> Inl e
      | Inr s1 \<Rightarrow>
         Inr (\<lambda>fn. CallFunc B \<lparr>options = apply_options opts, callFunc = fn, Client = None\<rparr>, s1))"
  by (simp add: NewCallWrapper_def Let_def)

lemma NewHandlerWrapper_eq:
  "NewHandlerWrapper B opts s =
     (case register_metrics ServerGroup B (Context (apply_options opts)) s of
        Inl e \<Rightarrow> Inl e
      | Inr s1 \<Rightarrow>
         Inr (HandlerFunc B \<lparr>options = apply_options opts, callFunc = None, Client = None\<rparr>, s1))"
  by (simp add: NewHandlerWrapper_def Let_def)

lemma NewSubscriberWrapper_eq:
  "NewSubscriberWrapper B opts s =
     (case register_metrics SubscribeGroup B (Context (apply_options opts)) s of
        Inl e \<Rightarrow> Inl e
      | Inr s1 \<Rightarrow>
         Inr (SubscriberFunc B \<lparr>options = apply_options opts, callFunc = None, Client = None\<rparr>, s1))"
  by (simp add: NewSubscriberWrapper_def Let_def)

lemma collectors_init_group:
  "\<exists>a b c. collectors g (init_group g s) = [Some a, Some b, Some c]"
  using registered_init_group[of g s] by (auto simp: registered_def collectors_def)

lemma example_backend_benign: "benign (fst (Register example_backend w (Some m)))"
  by (simp add: example_backend_def)

lemma example_backend_registers:
  "register_metrics g example_backend c s =
     Inr ((init_group g s)
            \<lparr>world := registrations example_backend (collectors g (init_group g s)) (world s)\<rparr>)"
proof -
  obtain a b d where cs: "collectors g (init_group g s) = [Some a, Some b, Some d]"
    using collectors_init_group by blast
  have "list_all benign (answers example_backend (world (init_group g s)) (collectors g (init_group g s)))"
    unfolding cs by (simp add: example_backend_benign)
  from register_collectors_benign[OF this, of c] show ?thesis
    by (simp add: register_metrics_eq init_group_simps)
qed

lemma example_options_applied:
  "apply_options example_options = \<lparr>Name = ''svc'', Version = ''v1'', ID = ''i1'', Context = Background\<rparr>"
  by (simp add: apply_options_def example_options_def ServiceName_def ServiceVersion_def ServiceID_def)

lemma registrations_append:
  "registrations B (cs @ ds) w = registrations B ds (registrations B cs w)"
  by (induction cs arbitrary: w) simp_all

lemma collectors_world_update: "collectors g (s\<lparr>world := w\<rparr>) = collectors g s"
  by (simp add: collectors_def)

lemma collectors_init_group_keep:
  "registered g s \<Longrightarrow> collectors g (init_group h s) = collectors g s"
  by (simp add: collectors_def registered_def vars_init_group_keep)

lemma collectors_init_group_other:
  "g \<noteq> h \<Longrightarrow> collectors g (init_group h s) = collectors g s"
  by (cases g; cases h) (simp_all add: collectors_def vars_init_group_other)

lemma NewCallWrapper_Inr:
  assumes "NewCallWrapper B opts s = Inr (dc, s')"
  shows "register_metrics ClientGroup B (Context (apply_options opts)) s = Inr s'"
  using assms by (simp add: NewCallWrapper_eq del: register_metrics.simps split: sum.splits)

lemma NewHandlerWrapper_Inr:
  assumes "NewHandlerWrapper B opts s = Inr (dh, s')"
  shows "register_metrics ServerGroup B (Context (apply_options opts)) s = Inr s'"
  using assms by (simp add: NewHandlerWrapper_eq del: register_metrics.simps split: sum.splits)

lemma NewSubscriberWrapper_Inr:
  assumes "NewSubscriberWrapper B opts s = Inr (ds, s')"
  shows "register_metrics SubscribeGroup B (Context (apply_options opts)) s = Inr s'"
  using assms by (simp add: NewSubscriberWrapper_eq del: register_metrics.simps split: sum.splits)

lemma NewClientWrapper_Inr:
  assumes "NewClientWrapper B opts s = Inr (mk, s')"
  shows "\<exists>s1. register_metrics ClientGroup B (Context (apply_options opts)) s = Inr s1 \<and>
              register_metrics PublishGroup B (Context (apply_options opts)) s1 = Inr s'"
  using assms by (simp add: NewClientWrapper_eq del: register_metrics.simps split: sum.splits)

lemma known_registrations:
  "registry_remembers B \<Longrightarrow> known B w collector \<Longrightarrow> known B (registrations B cs w) collector"
  by (induction cs arbitrary: w) (simp_all add: registry_remembers_def)

lemma benign_then_known:
  "registry_remembers B \<Longrightarrow> list_all benign (answers B w cs) \<Longrightarrow>
     \<forall>collector \<in> set cs. known B (registrations B cs w) collector"
proof (induction cs arbitrary: w)
  case Nil
  then show ?case by simp
next
  case (Cons a rest)
  from Cons.prems have b: "benign (fst (Register B w a))"
    and r: "list_all benign (answers B (snd (Register B w a)) rest)" by simp_all
  from Cons.prems(1) b have "known B (snd (Register B w a)) a"
    by (simp add: registry_remembers_def)
  with Cons.prems(1) have "known B (registrations B rest (snd (Register B w a))) a"
    by (rule known_registrations)
  with Cons.IH[OF Cons.prems(1) r] show ?case by simp
qed

lemma register_collectors_known:
  "\<forall>collector \<in> set cs. known B (world s) collector \<Longrightarrow> register_collectors B c cs s = Inr s"
  by (induction cs) (simp_all add: known_def)

lemma registrations_known:
  "\<forall>collector \<in> set cs. known B w collector \<Longrightarrow> registrations B cs w = w"
  by (induction cs) (simp_all add: known_def)

lemma register_metrics_known_after:
  assumes rr: "registry_remembers B" and r: "register_metrics g B c s = Inr s1"
  shows "\<forall>collector \<in> set (collectors g s1). known B (world s1) collector"
proof -
  let ?cs = "collectors g (init_group g s)"
  have e: "s1 = (init_group g s)\<lparr>world := registrations B ?cs (world s)\<rparr>"
    using r by (rule register_metrics_Inr(1))
  have b: "list_all benign (answers B (world s) ?cs)"
    using r by (rule register_metrics_Inr(2))
  have c: "collectors g s1 = ?cs" by (subst e) (simp add: collectors_world_update)
  have w: "world s1 = registrations B ?cs (world s)" by (subst e) simp
  from benign_then_known[OF rr b] show ?thesis by (simp only: c w)
qed

lemma register_metrics_known_again:
  assumes reg: "registered g s" and k: "\<forall>collector \<in> set (collectors g s). known B (world s) collector"
  shows "register_metrics g B c s = Inr s"
  using register_collectors_known[OF k, of c] reg
  by (simp add: register_metrics_eq init_group_idem)

lemma register_metrics_known_keep:
  assumes rr: "registry_remembers B" and r: "register_metrics g B c s = Inr s1"
    and reg: "registered h s"
    and k: "\<forall>collector \<in> set (collectors h s). known B (world s) collector"
  shows "\<forall>collector \<in> set (collectors h s1). known B (world s1) collector"
proof -
  let ?cs = "collectors g (init_group g s)"
  have e: "s1 = (init_group g s)\<lparr>world := registrations B ?cs (world s)\<rparr>"
    using r by (rule register_metrics_Inr(1))
  have c: "collectors h s1 = collectors h s"
    by (subst e) (simp add: collectors_world_update collectors_init_group_keep reg)
  have w: "world s1 = registrations B ?cs (world s)" by (subst e) simp
  from k known_registrations[OF rr] show ?thesis by (simp only: c w) blast
qed

lemma register_metrics_idem:
  assumes "registry_remembers B" and "register_metrics g B c s = Inr s1"
  shows "register_metrics g B c' s1 = Inr s1"
  using register_metrics_known_again[OF register_metrics_registered[OF assms(2)]
      register_metrics_known_after[OF assms]] .

lemma construct_eq:
  "construct k B opts s = register_all (groups_of k) B (Context (apply_options opts)) s"
  by (cases k)
     (simp_all add: NewClientWrapper_eq NewCallWrapper_eq NewHandlerWrapper_eq
        NewSubscriberWrapper_eq del: register_metrics.simps split: sum.splits)

lemma register_all_keeps_registered:
  "register_all gs B c s = Inr s1 \<Longrightarrow> registered h s \<Longrightarrow> registered h s1"
proof (induction gs arbitrary: s)
  case Nil
  then show ?case by simp
next
  case (Cons g gs)
  from Cons.prems(1) obtain s' where 1: "register_metrics g B c s = Inr s'"
    and 2: "register_all gs B c s' = Inr s1"
    by (auto simp del: register_metrics.simps split: sum.splits)
  from 1 Cons.prems(2) have "registered h s'" by (rule register_metrics_keeps_registered)
  with 2 show ?case by (rule Cons.IH)
qed

lemma register_all_registered:
  "register_all gs B c s = Inr s1 \<Longrightarrow> \<forall>g \<in> set gs. registered g s1"
proof (induction gs arbitrary: s)
  case Nil
  then show ?case by simp
next
  case (Cons g gs)
  from Cons.prems(1) obtain s' where 1: "register_metrics g B c s = Inr s'"
    and 2: "register_all gs B c s' = Inr s1"
    by (auto simp del: register_metrics.simps split: sum.splits)
  from 1 have "registered g s'" by (rule register_metrics_registered)
  with 2 have "registered g s1" by (rule register_all_keeps_registered)
  with Cons.IH[OF 2] show ?case by simp
qed

lemma register_all_again:
  "\<forall>g \<in> set gs. registered g s \<Longrightarrow> register_all gs B c s = Inr s2 \<Longrightarrow>
     vars s2 = vars s \<and> allocs s2 = allocs s \<and>
     DefaultMetricPrefix s2 = DefaultMetricPrefix s \<and> DefaultLabelPrefix s2 = DefaultLabelPrefix s"
proof (induction gs arbitrary: s)
  case Nil
  then show ?case by simp
next
  case (Cons g gs)
  from Cons.prems(2) obtain s' where 1: "register_metrics g B c s = Inr s'"
    and 2: "register_all gs B c s' = Inr s2"
    by (auto simp del: register_metrics.simps split: sum.splits)
  from Cons.prems(1) have g: "registered g s" by simp
  note a = register_metrics_again[OF g 1]
  from Cons.prems(1) have "\<forall>h \<in> set gs. registered h s'"
    using register_metrics_keeps_registered[OF 1] by simp
  from Cons.IH[OF this 2] a show ?case by simp
qed

lemma register_metrics_settled:
  "registry_remembers B \<Longrightarrow> register_metrics g B c s = Inr s1 \<Longrightarrow> settled B g s1"
  by (simp add: settled_def register_metrics_registered register_metrics_known_after
        del: register_metrics.simps)

lemma register_metrics_keeps_settled:
  "registry_remembers B \<Longrightarrow> register_metrics g B c s = Inr s1 \<Longrightarrow> settled B h s \<Longrightarrow>
     settled B h s1"
  unfolding settled_def
  using register_metrics_keeps_registered[of g B c s s1 h]
    register_metrics_known_keep[of B g c s s1 h]
  by blast

lemma register_all_keeps_settled:
  "registry_remembers B \<Longrightarrow> register_all gs B c s = Inr s1 \<Longrightarrow> settled B h s \<Longrightarrow>
     settled B h s1"
proof (induction gs arbitrary: s)
  case Nil
  then show ?case by simp
next
  case (Cons g gs)
  from Cons.prems(2) obtain s' where 1: "register_metrics g B c s = Inr s'"
    and 2: "register_all gs B c s' = Inr s1"
    by (auto simp del: register_metrics.simps split: sum.splits)
  from Cons.prems(1) 1 Cons.prems(3) have "settled B h s'" by (rule register_metrics_keeps_settled)
  with Cons.prems(1) 2 show ?case by (rule Cons.IH)
qed

lemma register_all_settled:
  "registry_remembers B \<Longrightarrow> register_all gs B c s = Inr s1 \<Longrightarrow> \<forall>g \<in> set gs. settled B g s1"
proof (induction gs arbitrary: s)
  case Nil
  then show ?case by simp
next
  case (Cons g gs)
  from Cons.prems(2) obtain s' where 1: "register_metrics g B c s = Inr s'"
    and 2: "register_all gs B c s' = Inr s1"
    by (auto simp del: register_metrics.simps split: sum.splits)
  from Cons.prems(1) 1 have "settled B g s'" by (rule register_metrics_settled)
  with Cons.prems(1) 2 have "settled B g s1" by (rule register_all_keeps_settled)
  with Cons.IH[OF Cons.prems(1) 2] show ?case by simp
qed

lemma register_all_of_settled:
  "\<forall>g \<in> set gs. settled B g s \<Longrightarrow> register_all gs B c s = Inr s"
proof (induction gs)
  case Nil
  then show ?case by simp
next
  case (Cons g gs)
  from Cons.prems have "settled B g s" by simp
  then have "register_metrics g B c s = Inr s"
    unfolding settled_def using register_metrics_known_again[of g s B c] by blast
  with Cons show ?case by (simp del: register_metrics.simps)
qed

lemma register_all_idem:
  assumes "registry_remembers B" and "register_all gs B c s = Inr s1"
  shows "register_all gs B c' s1 = Inr s1"
  using register_all_of_settled[OF register_all_settled[OF assms]] .

lemma family_of_Inc:
  "map_option family_of (vars (snd (WithLabelValues_Inc x l s)) y) = map_option family_of (vars s y)"
  by (simp add: WithLabelValues_Inc_def family_of_def split: option.splits)

lemma family_of_Observe:
  "map_option family_of (vars (snd (WithLabelValues_Observe x l v s)) y) =
     map_option family_of (vars s y)"
  by (simp add: WithLabelValues_Observe_def family_of_def split: option.splits)

lemma counted_call_frame:
  "allocs (snd (counted_call g lvs e f s)) = allocs (snd (f s))"
  "map_option family_of (vars (snd (counted_call g lvs e f s)) y) =
     map_option family_of (vars (snd (f s)) y)"
  by (cases "f s"; cases "fst (f s)";
      simp add: counted_call_Return counted_call_Panic frame_Inc family_of_Inc)+

lemma latency_observer_frame:
  "allocs (snd (latency_observer B g lvs v s)) = allocs s"
  "map_option family_of (vars (snd (latency_observer B g lvs v s)) y) = map_option family_of (vars s y)"
  by (simp_all add: latency_observer_def seq_alt fst_Observe frame_Observe family_of_Observe
        split: option.splits)

lemma decorated_frame:
  "allocs (snd (decorated B iv s)) = allocs (snd (wrapped iv s))"
  "world (snd (decorated B iv s)) = world (snd (wrapped iv s))"
  "map_option family_of (vars (snd (decorated B iv s)) y) =
     map_option family_of (vars (snd (wrapped iv s)) y)"
  by (simp_all add: decorated_decorate decorate_alt snd_with_deferred latency_observer_frame
        counted_call_frame latency_observer_world counted_call_world)

lemma example_backend_remembers: "registry_remembers example_backend"
  by (auto simp: registry_remembers_def known_def example_backend_def split: option.splits if_splits)

lemma goto_simps:
  "shared (goto t p sys) = shared sys" "mu (goto t p sys) = mu sys"
  "exited (goto t p sys) = exited sys"
  "threads (goto t p sys) t' = (if t' = t then (threads sys t)\<lparr>point := p\<rparr> else threads sys t')"
  by (simp_all add: goto_def)

lemma step_cases [case_names idle lock check_nil check_set new collect register_none register fatal unlock]:
  obtains
    (idle) "step B t sys = sys"
  | (lock) g rest where "exited sys = None" "queue (threads sys t) = g # rest"
      "point (threads sys t) = AtLock" "mu sys = None"
      "step B t sys = goto t (AtCheck OpsCounterSlot) (sys\<lparr>mu := Some t\<rparr>)"
  | (check_nil) g rest i where "exited sys = None" "queue (threads sys t) = g # rest"
      "point (threads sys t) = AtCheck i" "vars (shared sys) (slot_var g i) = None"
      "step B t sys = goto t (AtNew i) sys"
  | (check_set) g rest i where "exited sys = None" "queue (threads sys t) = g # rest"
      "point (threads sys t) = AtCheck i" "vars (shared sys) (slot_var g i) \<noteq> None"
      "step B t sys = goto t (after_slot i) sys"
  | (new) g rest i where "exited sys = None" "queue (threads sys t) = g # rest"
      "point (threads sys t) = AtNew i"
      "step B t sys = goto t (after_slot i)
         (sys\<lparr>shared := assign_new (slot_var g i) (new_family (slot_var g i) (shared sys)) (shared sys)\<rparr>)"
  | (collect) g rest where "exited sys = None" "queue (threads sys t) = g # rest"
      "point (threads sys t) = AtCollect"
      "step B t sys = goto t (loop_point (collectors g (shared sys))) sys"
  | (register_none) g rest where "exited sys = None" "queue (threads sys t) = g # rest"
      "point (threads sys t) = AtRegister []"
      "step B t sys = goto t AtUnlock sys"
  | (register) g rest collector cs where "exited sys = None" "queue (threads sys t) = g # rest"
      "point (threads sys t) = AtRegister (collector # cs)"
      "benign (fst (Register B (world (shared sys)) collector))"
      "step B t sys = goto t (loop_point cs)
         (sys\<lparr>shared := (shared sys)\<lparr>world := snd (Register B (world (shared sys)) collector)\<rparr>\<rparr>)"
  | (fatal) g rest collector cs msg where "exited sys = None" "queue (threads sys t) = g # rest"
      "point (threads sys t) = AtRegister (collector # cs)"
      "fst (Register B (world (shared sys)) collector) = Some (OtherError msg)"
      "step B t sys =
         sys\<lparr>shared := (shared sys)\<lparr>world := snd (Register B (world (shared sys)) collector)\<rparr>,
             exited := Some (Fatal (thread_ctx (threads sys t)) msg)\<rparr>"
  | (unlock) g rest where "exited sys = None" "queue (threads sys t) = g # rest"
      "point (threads sys t) = AtUnlock"
      "step B t sys =
         sys\<lparr>mu := None,
             threads := (threads sys)(t := (threads sys t)\<lparr>point := AtLock, queue := rest\<rparr>)\<rparr>"
proof (cases "exited sys = None")
  case False
  then have "step B t sys = sys" by (simp add: step_def)
  then show ?thesis by (rule idle)
next
  case ex: True
  show ?thesis
  proof (cases "queue (threads sys t)")
    case Nil
    then have "step B t sys = sys" by (simp add: step_def)
    then show ?thesis by (rule idle)
  next
    case q: (Cons g rest)
    show ?thesis
    proof (cases "point (threads sys t)")
      case AtLock
      show ?thesis
      proof (cases "mu sys = None")
        case True
        with ex q AtLock show ?thesis by (intro lock[of g rest]) (simp_all add: step_def)
      next
        case False
        with ex q AtLock have "step B t sys = sys" by (auto simp: step_def)
        then show ?thesis by (rule idle)
      qed
    next
      case (AtCheck i)
      show ?thesis
      proof (cases "vars (shared sys) (slot_var g i) = None")
        case True
        with ex q AtCheck show ?thesis by (intro check_nil[of g rest i]) (simp_all add: step_def)
      next
        case False
        with ex q AtCheck show ?thesis by (intro check_set[of g rest i]) (auto simp: step_def)
      qed
    next
      case (AtNew i)
      with ex q show ?thesis by (intro new[of g rest i]) (simp_all add: step_def)
    next
      case AtCollect
      with ex q show ?thesis by (intro collect[of g rest]) (simp_all add: step_def)
    next
      case (AtRegister cs)
      show ?thesis
      proof (cases cs)
        case Nil
        with ex q AtRegister show ?thesis by (intro register_none[of g rest]) (simp_all add: step_def)
      next
        case (Cons collector cs')
        obtain a w where r: "Register B (world (shared sys)) collector = (a, w)"
          by (cases "Register B (world (shared sys)) collector")
        show ?thesis
        proof (cases a rule: benign.cases)
          case 1
          with ex q AtRegister Cons r show ?thesis
            by (intro register[of g rest collector cs']) (simp_all add: step_def)
        next
          case 2
          with ex q AtRegister Cons r show ?thesis
            by (intro register[of g rest collector cs']) (simp_all add: step_def)
        next
          case (3 msg)
          with ex q AtRegister Cons r show ?thesis
            by (intro fatal[of g rest collector cs' msg]) (simp_all add: step_def)
        qed
      qed
    next
      case AtUnlock
      with ex q show ?thesis by (intro unlock[of g rest]) (simp_all add: step_def)
    qed
  qed
qed

lemma after_slot_not_lock: "after_slot i \<noteq> AtLock"
  by (cases i) simp_all

lemma loop_point_not_lock: "loop_point cs \<noteq> AtLock"
  by (cases cs) simp_all

lemma lock_inv_step:
  assumes "lock_inv sys"
  shows "lock_inv (step B t sys)"
proof (cases rule: step_cases[of B t sys])
  case idle
  with assms show ?thesis by simp
next
  case (lock g rest)
  with assms show ?thesis
    by (auto simp: lock_inv_def in_critical_section_def goto_simps)
next
  case (check_nil g rest i)
  with assms show ?thesis
    by (auto simp: lock_inv_def in_critical_section_def goto_simps)
next
  case (check_set g rest i)
  with assms show ?thesis
    by (auto simp: lock_inv_def in_critical_section_def goto_simps after_slot_not_lock)
next
  case (new g rest i)
  with assms show ?thesis
    by (auto simp: lock_inv_def in_critical_section_def goto_simps after_slot_not_lock)
next
  case (collect g rest)
  with assms show ?thesis
    by (auto simp: lock_inv_def in_critical_section_def goto_simps loop_point_not_lock)
next
  case (register_none g rest)
  with assms show ?thesis
    by (auto simp: lock_inv_def in_critical_section_def goto_simps)
next
  case (register g rest collector cs)
  with assms show ?thesis
    by (auto simp: lock_inv_def in_critical_section_def goto_simps loop_point_not_lock)
next
  case (fatal g rest collector cs msg)
  with assms show ?thesis
    by (auto simp: lock_inv_def in_critical_section_def)
next
  case (unlock g rest)
  from assms unlock have holder: "mu sys = Some t"
    by (simp add: lock_inv_def in_critical_section_def)
  have "\<not> in_critical_section (step B t sys) t'" for t'
  proof (cases "t' = t")
    case True
    with unlock show ?thesis by (simp add: in_critical_section_def)
  next
    case False
    with assms holder have "\<not> in_critical_section sys t'"
      by (auto simp: lock_inv_def)
    with False unlock show ?thesis by (simp add: in_critical_section_def)
  qed
  then show ?thesis by (simp add: lock_inv_def)
qed

lemma other_at_lock:
  assumes "lock_inv sys" and "in_critical_section sys t \<or> mu sys = None" and "t' \<noteq> t"
    and "queue (threads sys t') = g # rest"
  shows "point (threads sys t') = AtLock"
proof (rule ccontr)
  assume "point (threads sys t') \<noteq> AtLock"
  with assms(4) have "in_critical_section sys t'" by (simp add: in_critical_section_def)
  with assms(1) have "mu sys = Some t'" by (simp add: lock_inv_def)
  with assms(1,2,3) show False by (auto simp: lock_inv_def)
qed

lemma point_ok_world: "point_ok (s\<lparr>world := w\<rparr>) g p = point_ok s g p"
  by (cases p) (simp_all add: registered_def)

lemma vars_assign_new_keep: "vars s y \<noteq> None \<Longrightarrow> vars (assign_new x new s) y \<noteq> None"
  by (simp add: assign_new_def)

lemma registered_assign_new: "registered g s \<Longrightarrow> registered g (assign_new x new s)"
  by (simp add: registered_def vars_assign_new_keep)

lemma registered_slots: "registered g s = (\<forall>i. vars s (slot_var g i) \<noteq> None)"
proof
  assume "registered g s"
  then show "\<forall>i. vars s (slot_var g i) \<noteq> None"
    by (intro allI) (case_tac i; simp add: registered_def)
next
  assume a: "\<forall>i. vars s (slot_var g i) \<noteq> None"
  from a[rule_format, of OpsCounterSlot] a[rule_format, of SummarySlot] a[rule_format, of HistogramSlot]
  show "registered g s" by (simp add: registered_def)
qed

lemma point_ok_after_slot:
  assumes "\<forall>j \<in> set (slots_before i). vars s (slot_var g j) \<noteq> None" and "vars s (slot_var g i) \<noteq> None"
  shows "point_ok s g (after_slot i)"
  using assms by (cases i) (simp_all add: registered_def)

lemma point_ok_loop_point: "registered g s \<Longrightarrow> point_ok s g (loop_point cs)"
  by (cases cs) simp_all

lemma points_invD:
  "points_inv sys \<Longrightarrow> queue (threads sys t) = g # rest \<Longrightarrow>
     point_ok (shared sys) g (point (threads sys t))"
  unfolding points_inv_def by blast

lemma points_inv_step:
  assumes l: "lock_inv sys" and p: "points_inv sys"
  shows "points_inv (step B t sys)"
proof (cases rule: step_cases[of B t sys])
  case idle
  with p show ?thesis by simp
next
  case (lock g rest)
  have "point_ok (shared (step B t sys)) g' (point (threads (step B t sys) t'))"
    if q: "queue (threads (step B t sys) t') = g' # rest'" for t' g' rest'
  proof (cases "t' = t")
    case True
    with lock show ?thesis by (simp add: goto_simps)
  next
    case False
    with q lock have q': "queue (threads sys t') = g' # rest'" by (simp add: goto_simps)
    from other_at_lock[OF l _ False q'] lock have "point (threads sys t') = AtLock" by simp
    with False lock show ?thesis by (simp add: goto_simps)
  qed
  then show ?thesis by (simp add: points_inv_def)
next
  case (check_nil g rest i)
  then have cs: "in_critical_section sys t" by (simp add: in_critical_section_def)
  from points_invD[OF p check_nil(2)] check_nil(3) have ok: "point_ok (shared sys) g (AtCheck i)" by simp
  have "point_ok (shared (step B t sys)) g' (point (threads (step B t sys) t'))"
    if q: "queue (threads (step B t sys) t') = g' # rest'" for t' g' rest'
  proof (cases "t' = t")
    case True
    with q check_nil ok show ?thesis by (simp add: goto_simps)
  next
    case False
    with q check_nil have q': "queue (threads sys t') = g' # rest'" by (simp add: goto_simps)
    from other_at_lock[OF l _ False q'] cs have "point (threads sys t') = AtLock" by simp
    with False check_nil show ?thesis by (simp add: goto_simps)
  qed
  then show ?thesis by (simp add: points_inv_def)
next
  case (check_set g rest i)
  then have cs: "in_critical_section sys t" by (simp add: in_critical_section_def)
  from points_invD[OF p check_set(2)] check_set(3) have ok: "point_ok (shared sys) g (AtCheck i)" by simp
  have "point_ok (shared (step B t sys)) g' (point (threads (step B t sys) t'))"
    if q: "queue (threads (step B t sys) t') = g' # rest'" for t' g' rest'
  proof (cases "t' = t")
    case True
    with q check_set ok point_ok_after_slot[of i "shared sys" g] show ?thesis
      by (simp add: goto_simps)
  next
    case False
    with q check_set have q': "queue (threads sys t') = g' # rest'" by (simp add: goto_simps)
    from other_at_lock[OF l _ False q'] cs have "point (threads sys t') = AtLock" by simp
    with False check_set show ?thesis by (simp add: goto_simps)
  qed
  then show ?thesis by (simp add: points_inv_def)
next
  case (new g rest i)
  then have cs: "in_critical_section sys t" by (simp add: in_critical_section_def)
  from points_invD[OF p new(2)] new(3) have ok: "point_ok (shared sys) g (AtNew i)" by simp
  let ?s' = "assign_new (slot_var g i) (new_family (slot_var g i) (shared sys)) (shared sys)"
  have "point_ok (shared (step B t sys)) g' (point (threads (step B t sys) t'))"
    if q: "queue (threads (step B t sys) t') = g' # rest'" for t' g' rest'
  proof (cases "t' = t")
    case True
    from ok have "\<forall>j \<in> set (slots_before i). vars ?s' (slot_var g j) \<noteq> None"
      by (simp add: vars_assign_new_keep)
    moreover have "vars ?s' (slot_var g i) \<noteq> None" by (simp add: assign_new_def)
    ultimately have "point_ok ?s' g (after_slot i)" by (rule point_ok_after_slot)
    with True q new show ?thesis by (simp add: goto_simps)
  next
    case False
    with q new have q': "queue (threads sys t') = g' # rest'" by (simp add: goto_simps)
    from other_at_lock[OF l _ False q'] cs have "point (threads sys t') = AtLock" by simp
    with False new show ?thesis by (simp add: goto_simps)
  qed
  then show ?thesis by (simp add: points_inv_def)
next
  case (collect g rest)
  then have cs: "in_critical_section sys t" by (simp add: in_critical_section_def)
  from points_invD[OF p collect(2)] collect(3) have ok: "registered g (shared sys)" by simp
  have "point_ok (shared (step B t sys)) g' (point (threads (step B t sys) t'))"
    if q: "queue (threads (step B t sys) t') = g' # rest'" for t' g' rest'
  proof (cases "t' = t")
    case True
    with q collect point_ok_loop_point[OF ok] show ?thesis by (simp add: goto_simps)
  next
    case False
    with q collect have q': "queue (threads sys t') = g' # rest'" by (simp add: goto_simps)
    from other_at_lock[OF l _ False q'] cs have "point (threads sys t') = AtLock" by simp
    with False collect show ?thesis by (simp add: goto_simps)
  qed
  then show ?thesis by (simp add: points_inv_def)
next
  case (register_none g rest)
  then have cs: "in_critical_section sys t" by (simp add: in_critical_section_def)
  from points_invD[OF p register_none(2)] register_none(3) have ok: "registered g (shared sys)" by simp
  have "point_ok (shared (step B t sys)) g' (point (threads (step B t sys) t'))"
    if q: "queue (threads (step B t sys) t') = g' # rest'" for t' g' rest'
  proof (cases "t' = t")
    case True
    with q register_none ok show ?thesis by (simp add: goto_simps)
  next
    case False
    with q register_none have q': "queue (threads sys t') = g' # rest'" by (simp add: goto_simps)
    from other_at_lock[OF l _ False q'] cs have "point (threads sys t') = AtLock" by simp
    with False register_none show ?thesis by (simp add: goto_simps)
  qed
  then show ?thesis by (simp add: points_inv_def)
next
  case (register g rest collector cs')
  then have cs: "in_critical_section sys t" by (simp add: in_critical_section_def)
  from points_invD[OF p register(2)] register(3) have ok: "registered g (shared sys)" by simp
  have "point_ok (shared (step B t sys)) g' (point (threads (step B t sys) t'))"
    if q: "queue (threads (step B t sys) t') = g' # rest'" for t' g' rest'
  proof (cases "t' = t")
    case True
    with q register point_ok_loop_point[OF ok, of cs'] show ?thesis
      by (simp add: goto_simps point_ok_world)
  next
    case False
    with q register have q': "queue (threads sys t') = g' # rest'" by (simp add: goto_simps)
    from other_at_lock[OF l _ False q'] cs have "point (threads sys t') = AtLock" by simp
    with False register show ?thesis by (simp add: goto_simps)
  qed
  then show ?thesis by (simp add: points_inv_def)
next
  case (fatal g rest collector cs' msg)
  with p show ?thesis by (simp add: points_inv_def point_ok_world)
next
  case (unlock g rest)
  then have cs: "in_critical_section sys t" by (simp add: in_critical_section_def)
  have "point_ok (shared (step B t sys)) g' (point (threads (step B t sys) t'))"
    if q: "queue (threads (step B t sys) t') = g' # rest'" for t' g' rest'
  proof (cases "t' = t")
    case True
    with unlock show ?thesis by simp
  next
    case False
    with q unlock have q': "queue (threads sys t') = g' # rest'" by simp
    from other_at_lock[OF l _ False q'] cs have "point (threads sys t') = AtLock" by simp
    with False unlock show ?thesis by simp
  qed
  then show ?thesis by (simp add: points_inv_def)
qed

lemma family_suffix_inj: "family_suffix x = family_suffix y \<Longrightarrow> x = y"
  by (cases x; cases y; simp)

lemma family_name_inj: "family_name s x = family_name s y \<longleftrightarrow> x = y"
  by (auto simp: family_name_def dest: family_suffix_inj)

lemma consistent_world: "consistent (s\<lparr>world := w\<rparr>) = consistent s"
  by (simp add: consistent_def family_name_def)

lemma consistentD:
  "consistent s \<Longrightarrow> (vars s x \<noteq> None) = (family_name s x \<in> set (allocs s))"
  unfolding consistent_def by blast

lemma consistent_assign_new:
  assumes c: "consistent s" and n: "vars s x = None"
  shows "consistent (assign_new x (new_family x s) s)"
proof -
  let ?s' = "assign_new x (new_family x s) s"
  have a: "allocs ?s' = allocs s @ [family_name s x]"
    by (simp add: assign_new_def opts_Name_new_family family_name_def)
  have f: "family_name ?s' y = family_name s y" for y
    by (simp add: assign_new_def family_name_def)
  from consistentD[OF c, of x] n have "family_name s x \<notin> set (allocs s)" by simp
  with c have d: "distinct (allocs ?s')" by (simp add: a consistent_def)
  have "(vars ?s' y \<noteq> None) = (family_name ?s' y \<in> set (allocs ?s'))" for y
  proof (cases "y = x")
    case True
    then show ?thesis by (simp add: a f) (simp add: assign_new_def)
  next
    case False
    from c have "(vars s y \<noteq> None) = (family_name s y \<in> set (allocs s))"
      by (rule consistentD)
    with False show ?thesis by (simp add: a f family_name_inj) (simp add: assign_new_def)
  qed
  with d show ?thesis by (simp add: consistent_def)
qed

lemma consistent_step:
  assumes c: "consistent (shared sys)" and p: "points_inv sys"
  shows "consistent (shared (step B t sys))"
proof (cases rule: step_cases[of B t sys])
  case (new g rest i)
  from points_invD[OF p new(2)] new(3) have "vars (shared sys) (slot_var g i) = None" by simp
  with c have "consistent (assign_new (slot_var g i) (new_family (slot_var g i) (shared sys)) (shared sys))"
    by (rule consistent_assign_new)
  with new show ?thesis by (simp add: goto_simps)
qed (use c in \<open>simp_all add: goto_simps consistent_world\<close>)

lemma registered_step:
  assumes "registered g (shared sys)"
  shows "registered g (shared (step B t sys))"
proof (cases rule: step_cases[of B t sys])
  case (new g' rest i)
  with assms show ?thesis by (simp add: goto_simps registered_assign_new)
qed (use assms in \<open>simp_all add: goto_simps registered_world_update\<close>)

lemma queue_step:
  "queue (threads (step B t sys) t') = queue (threads sys t') \<or>
   (t' = t \<and> point (threads sys t) = AtUnlock \<and>
    queue (threads sys t) = hd (queue (threads sys t)) # queue (threads (step B t sys) t))"
  by (cases rule: step_cases[of B t sys]) (simp_all add: goto_simps)

lemma done_inv_step:
  assumes d: "done_inv ks sys" and p: "points_inv sys"
  shows "done_inv ks (step B t sys)"
proof -
  have "g \<in> set (queue (threads (step B t sys) t')) \<or> registered g (shared (step B t sys))"
    if k: "ks t' = Some k" "g \<in> set (groups_of k)" for t' k g
  proof -
    from d k have "g \<in> set (queue (threads sys t')) \<or> registered g (shared sys)"
      unfolding done_inv_def by blast
    then show ?thesis
    proof
      assume r: "registered g (shared sys)"
      then show ?thesis by (simp add: registered_step)
    next
      assume m: "g \<in> set (queue (threads sys t'))"
      from queue_step[of B t sys t'] show ?thesis
      proof
        assume "queue (threads (step B t sys) t') = queue (threads sys t')"
        with m show ?thesis by simp
      next
        assume u: "t' = t \<and> point (threads sys t) = AtUnlock \<and>
          queue (threads sys t) = hd (queue (threads sys t)) # queue (threads (step B t sys) t)"
        then have q: "queue (threads sys t) = hd (queue (threads sys t)) # queue (threads (step B t sys) t)"
          by simp
        from points_invD[OF p q] u have "registered (hd (queue (threads sys t))) (shared sys)" by simp
        then have "registered (hd (queue (threads sys t))) (shared (step B t sys))"
          by (rule registered_step)
        moreover from m u q have "g = hd (queue (threads sys t)) \<or> g \<in> set (queue (threads (step B t sys) t))"
          by (metis set_ConsD)
        ultimately show ?thesis using u by auto
      qed
    qed
  qed
  then show ?thesis unfolding done_inv_def by blast
qed

lemma invariant_step: "invariant ks sys \<Longrightarrow> invariant ks (step B t sys)"
  by (simp add: invariant_def consistent_step lock_inv_step points_inv_step done_inv_step)

lemma invariant_run: "invariant ks sys \<Longrightarrow> invariant ks (run B schedule sys)"
  by (induction schedule arbitrary: sys) (simp_all add: invariant_step)

lemma consistent_initial_state: "consistent (initial_state w)"
  by (simp add: consistent_def initial_state_def)

lemma invariant_start: "consistent s \<Longrightarrow> invariant ks (start ks cs s)"
  by (auto simp: invariant_def start_def lock_inv_def in_critical_section_def points_inv_def
        done_inv_def)

lemma count_list_distinct: "distinct xs \<Longrightarrow> count_list xs a = (if a \<in> set xs then 1 else 0)"
  by (induction xs) auto

lemma prefix_step:
  "DefaultMetricPrefix (shared (step B t sys)) = DefaultMetricPrefix (shared sys)"
  by (cases rule: step_cases[of B t sys]) (simp_all add: goto_simps assign_new_def)

lemma prefix_run:
  "DefaultMetricPrefix (shared (run B schedule sys)) = DefaultMetricPrefix (shared sys)"
  by (induction schedule arbitrary: sys) (simp_all add: prefix_step)

lemma done_invD:
  "done_inv ks sys \<Longrightarrow> ks t = Some k \<Longrightarrow> g \<in> set (groups_of k) \<Longrightarrow>
     queue (threads sys t) = [] \<Longrightarrow> registered g (shared sys)"
  unfolding done_inv_def by fastforce

lemma lock_invD: "lock_inv sys \<Longrightarrow> in_critical_section sys t \<Longrightarrow> mu sys = Some t"
  unfolding lock_inv_def by blast

lemma example_run:
  "allocs (shared (run example_backend example_schedule example_start)) =
     [''micro_server_request_total'', ''micro_server_latency_microseconds'',
      ''micro_server_request_duration_seconds'']"
  "queue (threads (run example_backend example_schedule example_start) 0) = []"
  "queue (threads (run example_backend example_schedule example_start) 1) = []"
  "mu (run example_backend example_schedule example_start) = None"
  by (simp_all add: example_schedule_def example_start_def start_def two_handler_constructors_def
        step_def goto_def initial_state_def example_backend_def collectors_def assign_new_def
        opts_Name_new_family numeral_eq_Suc)

lemma new_family_world_update: "new_family x (s\<lparr>world := w\<rparr>) = new_family x s"
  by (cases "family_kind x") (simp_all add: new_family_def)

lemma init_var_world_update: "init_var x (s\<lparr>world := w\<rparr>) = (init_var x s)\<lparr>world := w\<rparr>"
  by (simp add: init_var_def assign_new_def new_family_world_update)

lemma init_group_world_update: "init_group g (s\<lparr>world := w\<rparr>) = (init_group g s)\<lparr>world := w\<rparr>"
  by (simp add: init_group_def init_var_world_update)

lemma register_metrics_after:
  "register_metrics g B c s = Inr s' \<Longrightarrow> s' = after_registration B g s"
  unfolding after_registration_def by (rule register_metrics_Inr(1))

lemma register_all_Inr:
  "register_all gs B c s = Inr s1 \<Longrightarrow> s1 = foldl (\<lambda>s g. after_registration B g s) s gs"
proof (induction gs arbitrary: s)
  case Nil
  then show ?case by simp
next
  case (Cons g gs)
  from Cons.prems obtain s' where 1: "register_metrics g B c s = Inr s'"
    and 2: "register_all gs B c s' = Inr s1"
    by (auto simp del: register_metrics.simps split: sum.splits)
  from Cons.IH[OF 2] register_metrics_after[OF 1] show ?case by simp
qed

lemma after_registration_example:
  "allocs (after_registration example_backend PublishGroup
      (after_registration example_backend ClientGroup (initial_state (0, [])))) =
     [''micro_request_total'', ''micro_latency_microseconds'',
      ''micro_request_duration_seconds'', ''micro_publish_message_total'',
      ''micro_publish_message_latency_microseconds'',
      ''micro_publish_message_duration_seconds'']"
  "world (after_registration example_backend PublishGroup
      (after_registration example_backend ClientGroup (initial_state (0, [])))) =
     (0, [''micro_request_total'', ''micro_latency_microseconds'',
          ''micro_request_duration_seconds'', ''micro_publish_message_total'',
          ''micro_publish_message_latency_microseconds'',
          ''micro_publish_message_duration_seconds''])"
  by (simp_all add: after_registration_def init_group_world_update collectors_world_update
        collectors_def init_group_def init_var_simps initial_state_def example_backend_def
        opts_Name_new_family)

lemma run_append: "run B (xs @ ys) sys = run B ys (run B xs sys)"
  by (induction xs arbitrary: sys) simp_all

lemma run_replicate_add:
  "run B (replicate (m + n) t) sys = run B (replicate n t) (run B (replicate m t) sys)"
  by (simp add: replicate_add run_append)

lemma goto_same:
  assumes "point (threads sys t) = p"
  shows "goto t p sys = sys"
proof -
  from assms have "(threads sys t)\<lparr>point := p\<rparr> = threads sys t"
    by (cases "threads sys t") simp
  then show ?thesis by (simp add: goto_def)
qed

text \<open>A goroutine that runs alone: the phases of a registration function.\<close>

lemma alone_slot:
  assumes "exited sys = None" and "queue (threads sys t) = g # rest"
    and "point (threads sys t) = AtCheck i"
  shows "\<exists>n. run B (replicate n t) sys =
           goto t (after_slot i) (sys\<lparr>shared := init_var (slot_var g i) (shared sys)\<rparr>)"
proof (cases "vars (shared sys) (slot_var g i) = None")
  case True
  with assms have "run B (replicate 2 t) sys =
      goto t (after_slot i) (sys\<lparr>shared := init_var (slot_var g i) (shared sys)\<rparr>)"
    by (simp add: numeral_2_eq_2 step_def goto_def init_var_def)
  then show ?thesis by blast
next
  case False
  with assms have "run B (replicate 1 t) sys =
      goto t (after_slot i) (sys\<lparr>shared := init_var (slot_var g i) (shared sys)\<rparr>)"
    by (auto simp: step_def goto_def init_var_def)
  then show ?thesis by blast
qed

lemma alone_loop:
  assumes "exited sys = None" and "queue (threads sys t) = g # rest"
    and "point (threads sys t) = loop_point cs"
  shows "\<exists>n. case register_collectors B (thread_ctx (threads sys t)) cs (shared sys) of
                Inl e \<Rightarrow> exited (run B (replicate n t) sys) = Some e
              | Inr s' \<Rightarrow> run B (replicate n t) sys = goto t AtUnlock (sys\<lparr>shared := s'\<rparr>)"
  using assms
proof (induction cs arbitrary: sys)
  case Nil
  then have "run B (replicate 0 t) sys = goto t AtUnlock (sys\<lparr>shared := shared sys\<rparr>)"
    by (simp add: goto_same)
  then show ?case by (intro exI[of _ 0]) simp
next
  case (Cons collector cs)
  obtain a w where r: "Register B (world (shared sys)) collector = (a, w)"
    by (cases "Register B (world (shared sys)) collector")
  show ?case
  proof (cases "benign a")
    case False
    then obtain msg where a: "a = Some (OtherError msg)" by (cases a rule: benign.cases) simp_all
    with Cons.prems r have "exited (run B (replicate 1 t) sys) =
        Some (Fatal (thread_ctx (threads sys t)) msg)"
      by (simp add: step_def)
    with a r show ?thesis by (intro exI[of _ 1]) simp
  next
    case True
    let ?sys' = "goto t (loop_point cs) (sys\<lparr>shared := (shared sys)\<lparr>world := w\<rparr>\<rparr>)"
    from True Cons.prems r have s: "step B t sys = ?sys'"
      by (cases a rule: benign.cases) (simp_all add: step_def)
    have "exited ?sys' = None" "queue (threads ?sys' t) = g # rest"
      "point (threads ?sys' t) = loop_point cs"
      using Cons.prems by (simp_all add: goto_simps)
    from Cons.IH[OF this] obtain n where
      n: "case register_collectors B (thread_ctx (threads ?sys' t)) cs (shared ?sys') of
            Inl e \<Rightarrow> exited (run B (replicate n t) ?sys') = Some e
          | Inr s' \<Rightarrow> run B (replicate n t) ?sys' = goto t AtUnlock (?sys'\<lparr>shared := s'\<rparr>)"
      by blast
    have c: "register_collectors B (thread_ctx (threads sys t)) (collector # cs) (shared sys) =
        register_collectors B (thread_ctx (threads sys t)) cs ((shared sys)\<lparr>world := w\<rparr>)"
      using True r by (cases a rule: benign.cases) simp_all
    have e1: "thread_ctx (threads ?sys' t) = thread_ctx (threads sys t)"
      by (simp add: goto_simps)
    have e2: "shared ?sys' = (shared sys)\<lparr>world := w\<rparr>"
      by (simp add: goto_simps)
    have e3: "goto t AtUnlock (?sys'\<lparr>shared := s'\<rparr>) = goto t AtUnlock (sys\<lparr>shared := s'\<rparr>)" for s'
      by (simp add: goto_def)
    have e4: "run B (replicate (Suc n) t) sys = run B (replicate n t) ?sys'"
      by (simp add: s)
    have "case register_collectors B (thread_ctx (threads sys t)) (collector # cs) (shared sys) of
            Inl e \<Rightarrow> exited (run B (replicate (Suc n) t) sys) = Some e
          | Inr s' \<Rightarrow> run B (replicate (Suc n) t) sys = goto t AtUnlock (sys\<lparr>shared := s'\<rparr>)"
      unfolding c e4 using n[unfolded e1 e2 e3] .
    then show ?thesis by blast
  qed
qed

lemma run_replicate_snoc:
  "run B (replicate (Suc n) t) sys = step B t (run B (replicate n t) sys)"
  using run_replicate_add[of B n 1 t sys] by simp

lemma alone_register_metrics:
  assumes ex: "exited sys = None" and mu: "mu sys = None"
    and q: "queue (threads sys t) = g # rest" and pt: "point (threads sys t) = AtLock"
  shows "\<exists>n. case register_metrics g B (thread_ctx (threads sys t)) (shared sys) of
                Inl e \<Rightarrow> exited (run B (replicate n t) sys) = Some e
              | Inr s' \<Rightarrow>
                  run B (replicate n t) sys =
                    sys\<lparr>shared := s',
                        threads := (threads sys)(t := (threads sys t)\<lparr>queue := rest\<rparr>)\<rparr>"
proof -
  define c where "c = thread_ctx (threads sys t)"
  define s0 where "s0 = shared sys"
  define sys1 where "sys1 = goto t (AtCheck OpsCounterSlot) (sys\<lparr>mu := Some t\<rparr>)"
  have s1: "run B (replicate 1 t) sys = sys1"
    using ex mu q pt by (simp add: step_def sys1_def)
  have p1: "exited sys1 = None" "queue (threads sys1 t) = g # rest"
    "point (threads sys1 t) = AtCheck OpsCounterSlot"
    using ex q by (simp_all add: sys1_def goto_simps)
  define sys2 where "sys2 = goto t (after_slot OpsCounterSlot)
    (sys1\<lparr>shared := init_var (slot_var g OpsCounterSlot) (shared sys1)\<rparr>)"
  obtain n1 where s2: "run B (replicate n1 t) sys1 = sys2"
    using alone_slot[OF p1, of B] unfolding sys2_def by blast
  have p2: "exited sys2 = None" "queue (threads sys2 t) = g # rest"
    "point (threads sys2 t) = AtCheck SummarySlot"
    using p1 by (simp_all add: sys2_def goto_simps)
  define sys3 where "sys3 = goto t (after_slot SummarySlot)
    (sys2\<lparr>shared := init_var (slot_var g SummarySlot) (shared sys2)\<rparr>)"
  obtain n2 where s3: "run B (replicate n2 t) sys2 = sys3"
    using alone_slot[OF p2, of B] unfolding sys3_def by blast
  have p3: "exited sys3 = None" "queue (threads sys3 t) = g # rest"
    "point (threads sys3 t) = AtCheck HistogramSlot"
    using p2 by (simp_all add: sys3_def goto_simps)
  define sys4 where "sys4 = goto t (after_slot HistogramSlot)
    (sys3\<lparr>shared := init_var (slot_var g HistogramSlot) (shared sys3)\<rparr>)"
  obtain n3 where s4: "run B (replicate n3 t) sys3 = sys4"
    using alone_slot[OF p3, of B] unfolding sys4_def by blast
  have p4: "exited sys4 = None" "queue (threads sys4 t) = g # rest"
    "point (threads sys4 t) = AtCollect"
    using p3 by (simp_all add: sys4_def goto_simps)
  have sh4: "shared sys4 = init_group g s0"
    by (simp add: sys4_def sys3_def sys2_def sys1_def s0_def goto_simps init_group_def)
  define sys5 where "sys5 = goto t (loop_point (collectors g (init_group g s0))) sys4"
  have s5: "run B (replicate 1 t) sys4 = sys5"
    using p4 sh4 by (simp add: step_def sys5_def)
  have p5: "exited sys5 = None" "queue (threads sys5 t) = g # rest"
    "point (threads sys5 t) = loop_point (collectors g (init_group g s0))"
    using p4 by (simp_all add: sys5_def goto_simps)
  have c5: "thread_ctx (threads sys5 t) = c" "shared sys5 = init_group g s0"
    using sh4
    by (simp_all add: sys5_def sys4_def sys3_def sys2_def sys1_def c_def goto_simps)
  obtain n5 where
    l: "case register_collectors B c (collectors g (init_group g s0)) (init_group g s0) of
          Inl e \<Rightarrow> exited (run B (replicate n5 t) sys5) = Some e
        | Inr s' \<Rightarrow> run B (replicate n5 t) sys5 = goto t AtUnlock (sys5\<lparr>shared := s'\<rparr>)"
    using alone_loop[OF p5, of B] unfolding c5 by blast
  have upto5: "run B (replicate (1 + n1 + n2 + n3 + 1) t) sys = sys5"
    by (simp only: run_replicate_add s1 s2 s3 s4 s5)
  have rm: "register_metrics g B c s0 =
      register_collectors B c (collectors g (init_group g s0)) (init_group g s0)"
    by (rule register_metrics_eq)
  show ?thesis
  proof (cases "register_collectors B c (collectors g (init_group g s0)) (init_group g s0)")
    case (Inl e)
    with l have "exited (run B (replicate n5 t) sys5) = Some e" by simp
    then have "exited (run B (replicate (1 + n1 + n2 + n3 + 1 + n5) t) sys) = Some e"
      by (simp only: run_replicate_add[of B "1 + n1 + n2 + n3 + 1" n5] upto5)
    with Inl show ?thesis
      unfolding c_def[symmetric] s0_def[symmetric] rm
      by (intro exI[of _ "1 + n1 + n2 + n3 + 1 + n5"]) simp
  next
    case (Inr s')
    define sys6 where "sys6 = goto t AtUnlock (sys5\<lparr>shared := s'\<rparr>)"
    from l Inr have 6: "run B (replicate n5 t) sys5 = sys6" by (simp add: sys6_def)
    have "step B t sys6 =
        sys\<lparr>shared := s', threads := (threads sys)(t := (threads sys t)\<lparr>queue := rest\<rparr>)\<rparr>"
      using ex mu q pt
      unfolding sys6_def sys5_def sys4_def sys3_def sys2_def sys1_def
      by (cases sys; cases "threads sys t") (simp add: step_def goto_def)
    then have "run B (replicate (Suc (1 + n1 + n2 + n3 + 1 + n5)) t) sys =
        sys\<lparr>shared := s', threads := (threads sys)(t := (threads sys t)\<lparr>queue := rest\<rparr>)\<rparr>"
      by (simp only: run_replicate_snoc run_replicate_add[of B "1 + n1 + n2 + n3 + 1" n5] upto5 6)
    with Inr show ?thesis
      unfolding c_def[symmetric] s0_def[symmetric] rm
      by (intro exI[of _ "Suc (1 + n1 + n2 + n3 + 1 + n5)"]) simp
  qed
qed

section \<open>The claims\<close>

text \<open>
  C1 (as amended): whatever a decorated operation is invoked with, provided that the
  request or message is not nil and that the label values of the invocation (the name,
  version and id of the wrapper and the endpoint) are valid UTF-8, it returns (or panics
  with) exactly what the operation it wraps returns (or panics with) on that input, and
  it leaves the world outside the package, response slot included, as the wrapped
  operation left it.  The metric variables of the group are set, as they are once a
  constructor has returned.
\<close>

theorem decorated_returns_what_wrapped_returns:
  assumes "registered (group_of iv) (snd (wrapped iv s))"
      and "list_all ValidString (label_values iv)"
  shows "fst (decorated B iv s) = fst (wrapped iv s) \<and>
         world (snd (decorated B iv s)) = world (snd (wrapped iv s))"
  using assms
    decorate_fst[where g = "group_of iv" and f = "wrapped iv" and s = s and B = B
      and lvs = "label_values iv" and e = error_of]
  by (simp add: decorated_decorate decorate_world validateLabelValues_None)

theorem decorated_returns_what_wrapped_returns_witness:
  "registered (group_of (InvCall example_wrapper Background example_request 0 []))
     (snd (wrapped (InvCall example_wrapper Background example_request 0 []) (ready_state ClientGroup))) \<and>
   list_all ValidString (label_values (InvCall example_wrapper Background example_request 0 [])) \<and>
   fst (decorated example_backend (InvCall example_wrapper Background example_request 0 [])
          (ready_state ClientGroup)) = Return (ErrorResult None) \<and>
   world (snd (decorated example_backend (InvCall example_wrapper Background example_request 0 [])
          (ready_state ClientGroup))) =
     (10000000, [''micro_request_total'', ''micro_latency_microseconds'', ''micro_request_duration_seconds''])"
proof -
  have h: "registered (group_of (InvCall example_wrapper Background example_request 0 []))
     (snd (wrapped (InvCall example_wrapper Background example_request 0 []) (ready_state ClientGroup)))"
    using registered_ready_state[of ClientGroup]
    by (simp add: example_wrapper_def as_result_def slow_success_def registered_def)
  have v: "list_all ValidString (label_values (InvCall example_wrapper Background example_request 0 []))"
    by (simp add: label_values_def example_options_simps example_request_def ValidString_examples
          del: ValidString.simps)
  from decorated_returns_what_wrapped_returns[OF h v, of example_backend] h v show ?thesis
    by (simp add: example_wrapper_def as_result_def slow_success_def ready_state_eq init_group_simps
          initial_state_def del: ValidString.simps)
qed

text \<open>
  C1, as it is stated, is about every input.  It fails for a request whose service name
  is not valid UTF-8: the wrapped \<^verbatim>\<open>Call\<close> returns nil, and the decorated \<^verbatim>\<open>Call\<close> panics,
  because \<^verbatim>\<open>WithLabelValues\<close> refuses the endpoint label.  It fails for a nil request as
  well: the wrapped \<^verbatim>\<open>Call\<close> returns nil, and the decorated \<^verbatim>\<open>Call\<close> panics in its first
  statement, before the wrapped operation is called.
\<close>

theorem decorated_panics_where_wrapped_returns:
  "registered ClientGroup (ready_state ClientGroup) \<and>
   fst (wrapped (InvCall example_wrapper Background malformed_request 0 []) (ready_state ClientGroup)) =
     Return (ErrorResult None) \<and>
   fst (decorated example_backend (InvCall example_wrapper Background malformed_request 0 [])
          (ready_state ClientGroup)) = Panic (InvalidLabelValue (CHR 0xFF # ''.Hello'')) \<and>
   map_option (\<lambda>cl. fst (client_Call cl Background None 0 [] (ready_state ClientGroup)))
     (Client example_wrapper) = Some (Return None) \<and>
   Call example_backend example_wrapper Background None 0 [] (ready_state ClientGroup) =
     (Panic NilDereference, ready_state ClientGroup)"
proof -
  let ?iv = "InvCall example_wrapper Background malformed_request 0 []"
  let ?s1 = "(ready_state ClientGroup)\<lparr>world := (10000000,
      [''micro_request_total'', ''micro_latency_microseconds'', ''micro_request_duration_seconds''])\<rparr>"
  have w: "wrapped ?iv (ready_state ClientGroup) = (Return (ErrorResult None), ?s1)"
    by (simp add: example_wrapper_simps as_result_def slow_success_def world_ready_state)
  have v: "validateLabelValues (label_values ?iv) = Some (CHR 0xFF # ''.Hello'')"
    by (simp add: validateLabelValues_def label_values_def example_options_simps
          malformed_request_def ValidString_examples ValidString_malformed del: ValidString.simps)
  have r: "vars (snd (wrapped ?iv (ready_state ClientGroup))) (time_summary (group_of ?iv)) \<noteq> None"
    using registered_ready_state[of ClientGroup]
    by (simp only: w snd_conv group_of.simps registered_def) simp
  have 1: "fst (decorated example_backend ?iv (ready_state ClientGroup)) =
      Panic (InvalidLabelValue (CHR 0xFF # ''.Hello''))"
    using decorate_refused(2)[where lvs = "label_values ?iv" and val = "CHR 0xFF # ''.Hello''"
        and f = "wrapped ?iv" and s = "ready_state ClientGroup" and g = "group_of ?iv"
        and B = example_backend and e = error_of, OF v r]
    by (simp only: decorated_decorate)
  have 2: "map_option (\<lambda>cl. fst (client_Call cl Background None 0 [] (ready_state ClientGroup)))
     (Client example_wrapper) = Some (Return None)"
    by (simp add: example_wrapper_simps slow_success_def)
  from 1 2 registered_ready_state[of ClientGroup] show ?thesis
    by (simp add: w nil_request_panics del: decorated.simps wrapped.simps)
qed


text \<open>
  C2 (as amended): for every invocation of a decorated operation in which the wrapped
  operation returns and the label values (name, version, id, endpoint) are valid UTF-8,
  the ops counter of the group is incremented exactly once: the count under the label
  tuple (name, version, id, endpoint, status) goes up by one, with status "success" if
  the returned error is nil and "failure" otherwise, and the count under every other
  label tuple stays as the wrapped operation left it.
\<close>

theorem ops_counter_incremented_once_on_return:
  assumes "wrapped iv s = (Return r, s1)"
      and "vars s1 (ops_counter (group_of iv)) \<noteq> None"
      and "list_all ValidString (label_values iv)"
  shows "counter_value (snd (decorated B iv s)) (ops_counter (group_of iv)) =
           (counter_value s1 (ops_counter (group_of iv)))
             (label_values iv @ [if error_of r = None then ''success'' else ''failure''] :=
                counter_value s1 (ops_counter (group_of iv))
                  (label_values iv @ [if error_of r = None then ''success'' else ''failure'']) + 1)"
  using assms by (rule decorated_counter)

theorem ops_counter_incremented_once_on_return_witness:
  "wrapped (InvPublish example_wrapper Background example_message []) (ready_state PublishGroup) =
     (Return (ErrorResult (Some ''unavailable'')), ready_state PublishGroup) \<and>
   vars (ready_state PublishGroup) (ops_counter (group_of (InvPublish example_wrapper Background example_message []))) \<noteq> None \<and>
   list_all ValidString (label_values (InvPublish example_wrapper Background example_message [])) \<and>
   counter_value
     (snd (decorated example_backend (InvPublish example_wrapper Background example_message [])
        (ready_state PublishGroup)))
     publishOpsCounter = (\<lambda>lvs. 0)([''svc'', ''v1'', ''i1'', ''events'', ''failure''] := 1)"
proof -
  have h1: "wrapped (InvPublish example_wrapper Background example_message []) (ready_state PublishGroup) =
     (Return (ErrorResult (Some ''unavailable'')), ready_state PublishGroup)"
    by (simp add: example_wrapper_simps as_result_def failure_def)
  have h2: "vars (ready_state PublishGroup)
      (ops_counter (group_of (InvPublish example_wrapper Background example_message []))) \<noteq> None"
    using registered_ready_state[of PublishGroup] by (simp add: registered_def)
  have h3: "list_all ValidString (label_values (InvPublish example_wrapper Background example_message []))"
    by (simp add: label_values_def example_options_simps example_message_def ValidString_examples
          del: ValidString.simps)
  from ops_counter_incremented_once_on_return[OF h1 h2 h3, of example_backend] h1 h2 h3
  show ?thesis
    by (simp add: ready_state_data label_values_def example_options_simps example_message_def
          del: ValidString.simps)
qed

text \<open>
  C2, as it is stated, fails where the wrapped operation panics: the deferred latency
  observation runs, the increment of the counter is never reached.  A handler that
  panics leaves every count of the server ops counter as it was.  It also fails where
  the wrapped operation returns and a label value is not valid UTF-8: a publication
  under a topic that is not valid UTF-8 leaves every count of the publish ops counter as
  it was, because \<^verbatim>\<open>WithLabelValues\<close> panics before the increment.
\<close>

theorem ops_counter_not_incremented_on_panic:
  "fst (decorated example_backend
          (InvHandler example_wrapper (Some (\<lambda>c req rsp. panicking)) Background example_request 0)
          (ready_state ServerGroup)) = Panic (PanicValue ''boom'') \<and>
   counter_value
     (snd (decorated example_backend
        (InvHandler example_wrapper (Some (\<lambda>c req rsp. panicking)) Background example_request 0)
        (ready_state ServerGroup)))
     serverOpsCounter = counter_value (ready_state ServerGroup) serverOpsCounter \<and>
   observations
     (snd (decorated example_backend
        (InvHandler example_wrapper (Some (\<lambda>c req rsp. panicking)) Background example_request 0)
        (ready_state ServerGroup)))
     serverTimeCounterSummary [''svc'', ''v1'', ''i1'', ''Hello''] = [0] \<and>
   wrapped (InvPublish example_wrapper Background malformed_message []) (ready_state PublishGroup) =
     (Return (ErrorResult (Some ''unavailable'')), ready_state PublishGroup) \<and>
   counter_value
     (snd (decorated example_backend (InvPublish example_wrapper Background malformed_message [])
        (ready_state PublishGroup)))
     publishOpsCounter = counter_value (ready_state PublishGroup) publishOpsCounter"
proof -
  let ?iv = "InvHandler example_wrapper (Some (\<lambda>c req rsp. panicking)) Background example_request 0"
  have w: "wrapped ?iv (ready_state ServerGroup) = (Panic (PanicValue ''boom''), ready_state ServerGroup)"
    by (simp add: as_result_def panicking_def)
  have v: "list_all ValidString (label_values ?iv)"
    by (simp add: label_values_def example_options_simps example_request_def ValidString_examples
          del: ValidString.simps)
  have r: "registered (group_of ?iv) (snd (wrapped ?iv (ready_state ServerGroup)))"
    using registered_ready_state[of ServerGroup] by (simp only: w snd_conv group_of.simps)
  have 1: "fst (decorated example_backend ?iv (ready_state ServerGroup)) = Panic (PanicValue ''boom'')"
    using decorate_fst[where g = "group_of ?iv" and f = "wrapped ?iv" and s = "ready_state ServerGroup"
        and B = example_backend and lvs = "label_values ?iv" and e = error_of] r v
    by (simp only: decorated_decorate w fst_conv validateLabelValues_None)
  have 2: "counter_value (snd (decorated example_backend ?iv (ready_state ServerGroup))) serverOpsCounter =
           counter_value (ready_state ServerGroup) serverOpsCounter"
    using w by (rule decorated_counter_Panic)
  have s: "vars (snd (wrapped ?iv (ready_state ServerGroup))) (time_summary (group_of ?iv)) \<noteq> None"
    using r by (simp add: registered_def)
  have 3: "observations (snd (decorated example_backend ?iv (ready_state ServerGroup)))
             serverTimeCounterSummary [''svc'', ''v1'', ''i1'', ''Hello''] = [0]"
    using decorated_summary[OF s v, of example_backend, unfolded w snd_conv]
    by (simp add: ready_state_data label_values_def example_options_simps example_request_def
          example_backend_def del: decorated.simps)
  let ?pv = "InvPublish example_wrapper Background malformed_message []"
  have 4: "wrapped ?pv (ready_state PublishGroup) =
     (Return (ErrorResult (Some ''unavailable'')), ready_state PublishGroup)"
    by (simp add: example_wrapper_simps as_result_def failure_def)
  have n: "\<not> list_all ValidString (label_values ?pv)"
    by (simp add: label_values_def malformed_message_def ValidString_malformed
          del: ValidString.simps)
  have 5: "counter_value (snd (decorated example_backend ?pv (ready_state PublishGroup)))
      publishOpsCounter = counter_value (ready_state PublishGroup) publishOpsCounter"
    using decorated_refused(1)[OF n, of example_backend "ready_state PublishGroup"]
    by (simp only: 4 snd_conv)
  from 1 2 3 4 5 show ?thesis by (simp del: decorated.simps wrapped.simps)
qed


text \<open>
  C3 (as amended): every invocation of a decorated operation on a request or message
  that is not nil, with label values that are valid UTF-8, records exactly one
  observation in the microsecond summary of its group and exactly one in the seconds
  histogram, both under the label tuple (name, version, id, endpoint), which has no
  status; the observations under every other label tuple stay as they were.  Nothing is
  assumed about how the wrapped operation ends: it may return nil, return an error or
  panic.
\<close>

theorem latency_observed_once:
  assumes "vars (snd (wrapped iv s)) (time_summary (group_of iv)) \<noteq> None"
      and "vars (snd (wrapped iv s)) (time_histogram (group_of iv)) \<noteq> None"
      and "list_all ValidString (label_values iv)"
  shows "label_values iv =
           [Name (options (wrapper_of iv)), Version (options (wrapper_of iv)),
            ID (options (wrapper_of iv)), endpoint_of iv] \<and>
         observations (snd (decorated B iv s)) (time_summary (group_of iv)) =
           (observations (snd (wrapped iv s)) (time_summary (group_of iv)))
             (label_values iv :=
                observations (snd (wrapped iv s)) (time_summary (group_of iv)) (label_values iv) @
                [fmul B (Seconds_since B (Now B (world s)) (world (snd (wrapped iv s))))
                   (fconst B 1000000)]) \<and>
         observations (snd (decorated B iv s)) (time_histogram (group_of iv)) =
           (observations (snd (wrapped iv s)) (time_histogram (group_of iv)))
             (label_values iv :=
                observations (snd (wrapped iv s)) (time_histogram (group_of iv)) (label_values iv) @
                [Seconds_since B (Now B (world s)) (world (snd (wrapped iv s)))])"
  using decorated_summary[OF assms(1,3), of B] decorated_histogram[OF assms, of B]
  by (simp only: label_values_def simp_thms)

theorem latency_observed_once_witness:
  "vars (snd (wrapped (InvPublish example_wrapper Background example_message []) (ready_state PublishGroup)))
     (time_summary (group_of (InvPublish example_wrapper Background example_message []))) \<noteq> None \<and>
   vars (snd (wrapped (InvPublish example_wrapper Background example_message []) (ready_state PublishGroup)))
     (time_histogram (group_of (InvPublish example_wrapper Background example_message []))) \<noteq> None \<and>
   list_all ValidString (label_values (InvPublish example_wrapper Background example_message [])) \<and>
   fst (wrapped (InvPublish example_wrapper Background example_message []) (ready_state PublishGroup)) =
     Return (ErrorResult (Some ''unavailable'')) \<and>
   observations
     (snd (decorated example_backend (InvPublish example_wrapper Background example_message [])
        (ready_state PublishGroup)))
     publishTimeCounterSummary = (\<lambda>lvs. [])([''svc'', ''v1'', ''i1'', ''events''] := [0]) \<and>
   observations
     (snd (decorated example_backend (InvPublish example_wrapper Background example_message [])
        (ready_state PublishGroup)))
     publishTimeCounterHistogram = (\<lambda>lvs. [])([''svc'', ''v1'', ''i1'', ''events''] := [0])"
proof -
  let ?iv = "InvPublish example_wrapper Background example_message []"
  have w: "wrapped ?iv (ready_state PublishGroup) =
     (Return (ErrorResult (Some ''unavailable'')), ready_state PublishGroup)"
    by (simp add: example_wrapper_simps as_result_def failure_def)
  have h1: "vars (snd (wrapped ?iv (ready_state PublishGroup))) (time_summary (group_of ?iv)) \<noteq> None"
    using registered_ready_state[of PublishGroup]
    by (simp only: w snd_conv group_of.simps registered_def) simp
  have h2: "vars (snd (wrapped ?iv (ready_state PublishGroup))) (time_histogram (group_of ?iv)) \<noteq> None"
    using registered_ready_state[of PublishGroup]
    by (simp only: w snd_conv group_of.simps registered_def) simp
  have h3: "list_all ValidString (label_values ?iv)"
    by (simp add: label_values_def example_options_simps example_message_def ValidString_examples
          del: ValidString.simps)
  from latency_observed_once[OF h1 h2 h3, of example_backend, unfolded w snd_conv] h1 h2 h3 w
  show ?thesis
    by (simp add: ready_state_data label_values_def example_options_simps example_message_def
          example_backend_def del: decorated.simps wrapped.simps ValidString.simps)
qed

text \<open>
  C3, as it is stated, counts one observation for every invocation.  A subscriber
  invoked with a message whose topic is not valid UTF-8 returns nil, and the decorated
  subscriber records no observation, in the summary or in the histogram, under any
  label tuple: \<^verbatim>\<open>WithLabelValues\<close> panics in the deferred observer.  A publication of a
  nil message records nothing either: it panics before the timer is started.
\<close>

theorem latency_not_observed_on_refused_label:
  "registered SubscribeGroup (ready_state SubscribeGroup) \<and>
   fst (wrapped (InvSubscriber example_wrapper (Some (\<lambda>c msg. slow_success)) Background malformed_message)
          (ready_state SubscribeGroup)) = Return (ErrorResult None) \<and>
   observations
     (snd (decorated example_backend
        (InvSubscriber example_wrapper (Some (\<lambda>c msg. slow_success)) Background malformed_message)
        (ready_state SubscribeGroup)))
     subscribeTimeCounterSummary = (\<lambda>lvs. []) \<and>
   observations
     (snd (decorated example_backend
        (InvSubscriber example_wrapper (Some (\<lambda>c msg. slow_success)) Background malformed_message)
        (ready_state SubscribeGroup)))
     subscribeTimeCounterHistogram = (\<lambda>lvs. []) \<and>
   Publish example_backend example_wrapper Background None [] (ready_state PublishGroup) =
     (Panic NilDereference, ready_state PublishGroup)"
proof -
  let ?iv = "InvSubscriber example_wrapper (Some (\<lambda>c msg. slow_success)) Background malformed_message"
  let ?s1 = "(ready_state SubscribeGroup)\<lparr>world := (10000000,
      [''micro_subscribe_message_total'', ''micro_subscribe_message_latency_microseconds'',
       ''micro_subscribe_message_duration_seconds''])\<rparr>"
  have w: "wrapped ?iv (ready_state SubscribeGroup) = (Return (ErrorResult None), ?s1)"
    by (simp add: as_result_def slow_success_def world_ready_state)
  have n: "\<not> list_all ValidString (label_values ?iv)"
    by (simp add: label_values_def malformed_message_def ValidString_malformed
          del: ValidString.simps)
  have e: "snd (decorated example_backend ?iv (ready_state SubscribeGroup)) = ?s1"
    using decorated_refused(1)[OF n, of example_backend "ready_state SubscribeGroup"]
    by (simp only: w snd_conv)
  have o: "observations ?s1 x = (\<lambda>lvs. [])" for x
    by (simp add: observations_world_update ready_state_data)
  from registered_ready_state[of SubscribeGroup] show ?thesis
    by (simp add: e o w nil_request_panics del: decorated.simps wrapped.simps)
qed


text \<open>
  C4: in every invocation the value observed in the summary is the value observed in
  the histogram multiplied by 1000000, where the product is the one the program forms
  (of \<^verbatim>\<open>float64\<close>, \<open>fmul\<close>): the histogram gets the elapsed seconds, the summary
  the same value scaled to microseconds.  The values that an invocation adds to the
  summary are those it adds to the histogram, each multiplied by 1000000; this holds
  whether the label values are accepted (one value is added to each) or refused (none is
  added to either).
\<close>

theorem summary_is_histogram_times_million:
  assumes "vars (snd (wrapped iv s)) (time_summary (group_of iv)) \<noteq> None"
      and "vars (snd (wrapped iv s)) (time_histogram (group_of iv)) \<noteq> None"
  shows "observed_in (snd (wrapped iv s)) (snd (decorated B iv s)) (time_summary (group_of iv))
           (label_values iv) =
         map (\<lambda>v. fmul B v (fconst B 1000000))
           (observed_in (snd (wrapped iv s)) (snd (decorated B iv s))
              (time_histogram (group_of iv)) (label_values iv)) \<and>
         (list_all ValidString (label_values iv) \<longrightarrow>
            observed_in (snd (wrapped iv s)) (snd (decorated B iv s))
              (time_histogram (group_of iv)) (label_values iv) =
              [Seconds_since B (Now B (world s)) (world (snd (wrapped iv s)))] \<and>
            last (observations (snd (decorated B iv s)) (time_summary (group_of iv)) (label_values iv)) =
              fmul B
                (last (observations (snd (decorated B iv s)) (time_histogram (group_of iv))
                   (label_values iv)))
                (fconst B 1000000))"
proof (intro conjI impI)
  show "observed_in (snd (wrapped iv s)) (snd (decorated B iv s)) (time_summary (group_of iv))
           (label_values iv) =
         map (\<lambda>v. fmul B v (fconst B 1000000))
           (observed_in (snd (wrapped iv s)) (snd (decorated B iv s))
              (time_histogram (group_of iv)) (label_values iv))"
    using assms by (rule decorated_observed_in)
next
  assume v: "list_all ValidString (label_values iv)"
  show "observed_in (snd (wrapped iv s)) (snd (decorated B iv s))
              (time_histogram (group_of iv)) (label_values iv) =
              [Seconds_since B (Now B (world s)) (world (snd (wrapped iv s)))]"
    using assms v by (rule decorated_observed_once)
  show "last (observations (snd (decorated B iv s)) (time_summary (group_of iv)) (label_values iv)) =
              fmul B
                (last (observations (snd (decorated B iv s)) (time_histogram (group_of iv))
                   (label_values iv)))
                (fconst B 1000000)"
    using decorated_summary[OF assms(1) v, of B] decorated_histogram[OF assms v, of B]
    by (simp del: decorated.simps wrapped.simps)
qed

theorem summary_is_histogram_times_million_witness:
  "vars (snd (wrapped (InvCallFunc example_wrapper Background ''10.0.0.1:8080'' example_request 0 0)
            (ready_state ClientGroup)))
     (time_summary (group_of (InvCallFunc example_wrapper Background ''10.0.0.1:8080'' example_request 0 0))) \<noteq> None \<and>
   vars (snd (wrapped (InvCallFunc example_wrapper Background ''10.0.0.1:8080'' example_request 0 0)
            (ready_state ClientGroup)))
     (time_histogram (group_of (InvCallFunc example_wrapper Background ''10.0.0.1:8080'' example_request 0 0))) \<noteq> None \<and>
   list_all ValidString
     (label_values (InvCallFunc example_wrapper Background ''10.0.0.1:8080'' example_request 0 0)) \<and>
   observed_in
     (snd (wrapped (InvCallFunc example_wrapper Background ''10.0.0.1:8080'' example_request 0 0)
        (ready_state ClientGroup)))
     (snd (decorated example_backend
        (InvCallFunc example_wrapper Background ''10.0.0.1:8080'' example_request 0 0)
        (ready_state ClientGroup)))
     clientTimeCounterHistogram [''svc'', ''v1'', ''i1'', ''Greeter.Hello''] = [1 / 100] \<and>
   observed_in
     (snd (wrapped (InvCallFunc example_wrapper Background ''10.0.0.1:8080'' example_request 0 0)
        (ready_state ClientGroup)))
     (snd (decorated example_backend
        (InvCallFunc example_wrapper Background ''10.0.0.1:8080'' example_request 0 0)
        (ready_state ClientGroup)))
     clientTimeCounterSummary [''svc'', ''v1'', ''i1'', ''Greeter.Hello''] = [10000] \<and>
   last (observations
     (snd (decorated example_backend
        (InvCallFunc example_wrapper Background ''10.0.0.1:8080'' example_request 0 0)
        (ready_state ClientGroup)))
     clientTimeCounterHistogram [''svc'', ''v1'', ''i1'', ''Greeter.Hello'']) = 1 / 100 \<and>
   last (observations
     (snd (decorated example_backend
        (InvCallFunc example_wrapper Background ''10.0.0.1:8080'' example_request 0 0)
        (ready_state ClientGroup)))
     clientTimeCounterSummary [''svc'', ''v1'', ''i1'', ''Greeter.Hello'']) = 10000"
proof -
  let ?iv = "InvCallFunc example_wrapper Background ''10.0.0.1:8080'' example_request 0 0"
  let ?s1 = "(ready_state ClientGroup)\<lparr>world := (10000000,
      [''micro_request_total'', ''micro_latency_microseconds'', ''micro_request_duration_seconds''])\<rparr>"
  have w: "wrapped ?iv (ready_state ClientGroup) = (Return (ErrorResult None), ?s1)"
    by (simp add: example_wrapper_simps as_result_def slow_success_def world_ready_state)
  have h1: "vars (snd (wrapped ?iv (ready_state ClientGroup))) (time_summary (group_of ?iv)) \<noteq> None"
    using registered_ready_state[of ClientGroup]
    by (simp only: w snd_conv group_of.simps registered_def) simp
  have h2: "vars (snd (wrapped ?iv (ready_state ClientGroup))) (time_histogram (group_of ?iv)) \<noteq> None"
    using registered_ready_state[of ClientGroup]
    by (simp only: w snd_conv group_of.simps registered_def) simp
  have lv: "label_values ?iv = [''svc'', ''v1'', ''i1'', ''Greeter.Hello'']"
    by (simp add: label_values_def example_options_simps example_request_def)
  have h3: "list_all ValidString (label_values ?iv)"
    unfolding lv by (simp add: ValidString_examples del: ValidString.simps)
  have sec: "Seconds_since example_backend (Now example_backend (world (ready_state ClientGroup)))
      (world (snd (wrapped ?iv (ready_state ClientGroup)))) = 1 / 100"
    by (simp only: w snd_conv) (simp add: example_backend_def world_ready_state)
  note t = summary_is_histogram_times_million[OF h1 h2, of example_backend, unfolded lv sec]
  from t h3[unfolded lv]
  have a: "observed_in (snd (wrapped ?iv (ready_state ClientGroup)))
      (snd (decorated example_backend ?iv (ready_state ClientGroup)))
      clientTimeCounterHistogram [''svc'', ''v1'', ''i1'', ''Greeter.Hello''] = [1 / 100]"
    by (simp del: decorated.simps wrapped.simps ValidString.simps)
  from t a
  have b: "observed_in (snd (wrapped ?iv (ready_state ClientGroup)))
      (snd (decorated example_backend ?iv (ready_state ClientGroup)))
      clientTimeCounterSummary [''svc'', ''v1'', ''i1'', ''Greeter.Hello''] = [10000]"
    by (simp add: example_backend_def del: decorated.simps wrapped.simps ValidString.simps)
  have hist: "last (observations (snd (decorated example_backend ?iv (ready_state ClientGroup)))
      clientTimeCounterHistogram [''svc'', ''v1'', ''i1'', ''Greeter.Hello'']) = 1 / 100"
    using decorated_histogram[OF h1 h2 h3, of example_backend, unfolded lv sec]
    by (simp del: decorated.simps wrapped.simps)
  from t h3[unfolded lv] hist
  have c: "last (observations (snd (decorated example_backend ?iv (ready_state ClientGroup)))
      clientTimeCounterSummary [''svc'', ''v1'', ''i1'', ''Greeter.Hello'']) = 10000"
    by (simp add: example_backend_def del: decorated.simps wrapped.simps ValidString.simps)
  from h1 h2 h3 a b hist c show ?thesis
    by (simp only: lv simp_thms)
qed


text \<open>
  C5: what a registration function does with the answers of the registry.  If every
  answer is nil or \<^verbatim>\<open>AlreadyRegisteredError\<close>, the function goes through all three
  collectors and returns normally, with the families it ensured and the registry as the
  three registrations left it.  If the answer to a collector is another error and the
  answers before it were nil or \<^verbatim>\<open>AlreadyRegisteredError\<close>, the process is terminated by
  \<^verbatim>\<open>logger.Fatal\<close> with the context and the text of that error.  The function ends
  in no other way than these two: it hands no error to its caller, and a termination
  always carries the text of an error that is not \<^verbatim>\<open>AlreadyRegisteredError\<close>.
\<close>

theorem registration_error_handling:
  "(list_all benign (answers B (world s) (collectors g (init_group g s))) \<longrightarrow>
      register_metrics g B c s =
        Inr ((init_group g s)
               \<lparr>world := registrations B (collectors g (init_group g s)) (world s)\<rparr>)) \<and>
   (i < 3 \<and> list_all benign (take i (answers B (world s) (collectors g (init_group g s)))) \<and>
    answers B (world s) (collectors g (init_group g s)) ! i = Some (OtherError msg) \<longrightarrow>
      register_metrics g B c s = Inl (Fatal c msg)) \<and>
   (register_metrics g B c s = Inl e \<longrightarrow>
      (\<exists>m. e = Fatal c m \<and>
           Some (OtherError m) \<in> set (answers B (world s) (collectors g (init_group g s)))))"
proof (intro conjI impI)
  assume "list_all benign (answers B (world s) (collectors g (init_group g s)))"
  then show "register_metrics g B c s =
        Inr ((init_group g s)
               \<lparr>world := registrations B (collectors g (init_group g s)) (world s)\<rparr>)"
    using register_collectors_benign[of B "init_group g s" "collectors g (init_group g s)" c]
    by (simp add: register_metrics_eq init_group_simps)
next
  assume "i < 3 \<and> list_all benign (take i (answers B (world s) (collectors g (init_group g s)))) \<and>
    answers B (world s) (collectors g (init_group g s)) ! i = Some (OtherError msg)"
  then show "register_metrics g B c s = Inl (Fatal c msg)"
    using register_collectors_fatal[of i "collectors g (init_group g s)" B "init_group g s" msg c]
    by (simp add: register_metrics_eq init_group_simps collectors_def)
next
  assume "register_metrics g B c s = Inl e"
  then show "\<exists>m. e = Fatal c m \<and>
           Some (OtherError m) \<in> set (answers B (world s) (collectors g (init_group g s)))"
    using register_collectors_Inl[of B c "collectors g (init_group g s)" "init_group g s" e]
    by (simp add: register_metrics_eq init_group_simps)
qed


theorem registration_error_handling_witness:
  "answers example_backend (0, [''micro_request_total''])
     (collectors ClientGroup (init_group ClientGroup
        (initial_state (0, [''micro_request_total'']) :: (real, nat \<times> string list) state))) =
     [Some AlreadyRegisteredError, None, None] \<and>
   register_metrics ClientGroup example_backend Background (initial_state (0, [''micro_request_total''])) =
     Inr ((init_group ClientGroup (initial_state (0, [''micro_request_total''])))
            \<lparr>world := (0, [''micro_request_total'', ''micro_latency_microseconds'',
                            ''micro_request_duration_seconds''])\<rparr>) \<and>
   answers refusing_backend (0, [])
     (collectors ClientGroup (init_group ClientGroup
        (initial_state (0, []) :: (real, nat \<times> string list) state))) ! 0 =
     Some (OtherError ''refused'') \<and>
   register_metrics ClientGroup refusing_backend (Derived 1) (initial_state (0, [])) =
     Inl (Fatal (Derived 1) ''refused'')"
proof -
  let ?s = "initial_state (0, [''micro_request_total'']) :: (real, nat \<times> string list) state"
  let ?t = "initial_state (0, []) :: (real, nat \<times> string list) state"
  have a: "answers example_backend (world ?s) (collectors ClientGroup (init_group ClientGroup ?s)) =
     [Some AlreadyRegisteredError, None, None]"
    by (simp add: collectors_def init_group_def init_var_simps initial_state_def example_backend_def
          opts_Name_new_family)
  have w: "registrations example_backend (collectors ClientGroup (init_group ClientGroup ?s)) (world ?s) =
     (0, [''micro_request_total'', ''micro_latency_microseconds'', ''micro_request_duration_seconds''])"
    by (simp add: collectors_def init_group_def init_var_simps initial_state_def example_backend_def
          opts_Name_new_family)
  have b: "answers refusing_backend (world ?t) (collectors ClientGroup (init_group ClientGroup ?t)) ! 0 =
     Some (OtherError ''refused'')"
    by (simp add: collectors_def refusing_backend_def)
  have 1: "register_metrics ClientGroup example_backend Background ?s =
     Inr ((init_group ClientGroup ?s)
            \<lparr>world := (0, [''micro_request_total'', ''micro_latency_microseconds'',
                            ''micro_request_duration_seconds''])\<rparr>)"
    using registration_error_handling[of example_backend ?s ClientGroup Background] a w
    by simp
  have 2: "register_metrics ClientGroup refusing_backend (Derived 1) ?t = Inl (Fatal (Derived 1) ''refused'')"
    using registration_error_handling[of refusing_backend ?t ClientGroup "Derived 1" 0 "''refused''"] b
    by simp
  from a b 1 2 show ?thesis by (simp add: initial_state_def)
qed


text \<open>
  C6: registration happens when a wrapper is constructed, and constructing again
  changes nothing.  When a constructor has returned, the registration function of each
  of its groups has run, one group after the other: the metric variables of the group
  that were nil hold new vectors, and the registry has been handed the three collectors
  of the group, so that the metric variables of its groups are set.  A constructor that
  runs in such a state and returns leaves every metric variable pointing to the object
  it pointed to, constructs no object and leaves the prefixes alone; if the registry
  remembers what it was handed, the second run returns the very state it started in,
  and so does a second run of a registration function.  An invocation registers
  nothing: it constructs no object, leaves the world outside (the registry with it) as
  the wrapped operation left it, and no metric variable changes the object it points to.
\<close>

theorem registration_at_construction_is_idempotent:
  "(construct k B opts s = Inr s1 \<longrightarrow>
      s1 = foldl (\<lambda>s g. after_registration B g s) s (groups_of k) \<and>
      (\<forall>g \<in> set (groups_of k). registered g s1) \<and>
      (construct k B opts' s1 = Inr s2 \<longrightarrow>
         vars s2 = vars s1 \<and> allocs s2 = allocs s1 \<and>
         DefaultMetricPrefix s2 = DefaultMetricPrefix s1 \<and>
         DefaultLabelPrefix s2 = DefaultLabelPrefix s1) \<and>
      (registry_remembers B \<longrightarrow> construct k B opts' s1 = Inr s1)) \<and>
   (registry_remembers B \<and> register_metrics g B c s = Inr s1 \<longrightarrow>
      register_metrics g B c' s1 = Inr s1) \<and>
   allocs (snd (decorated B iv s)) = allocs (snd (wrapped iv s)) \<and>
   world (snd (decorated B iv s)) = world (snd (wrapped iv s)) \<and>
   (\<forall>x. map_option family_of (vars (snd (decorated B iv s)) x) =
        map_option family_of (vars (snd (wrapped iv s)) x))"
proof (intro conjI impI allI)
  assume a: "construct k B opts s = Inr s1"
  then show "s1 = foldl (\<lambda>s g. after_registration B g s) s (groups_of k)"
    unfolding construct_eq by (rule register_all_Inr)
  from a show r: "\<forall>g \<in> set (groups_of k). registered g s1"
    unfolding construct_eq by (rule register_all_registered)
  {
    assume "construct k B opts' s1 = Inr s2"
    then have b: "register_all (groups_of k) B (Context (apply_options opts')) s1 = Inr s2"
      by (simp only: construct_eq)
    from register_all_again[OF r b]
    show "vars s2 = vars s1" and "allocs s2 = allocs s1"
      and "DefaultMetricPrefix s2 = DefaultMetricPrefix s1"
      and "DefaultLabelPrefix s2 = DefaultLabelPrefix s1"
      by simp_all
  }
  {
    assume "registry_remembers B"
    from register_all_idem[OF this a[unfolded construct_eq]]
    show "construct k B opts' s1 = Inr s1" by (simp only: construct_eq)
  }
next
  assume "registry_remembers B \<and> register_metrics g B c s = Inr s1"
  then show "register_metrics g B c' s1 = Inr s1"
    using register_metrics_idem[of B g c s s1 c'] by blast
qed (simp_all only: decorated_frame)

theorem registration_at_construction_is_idempotent_witness:
  "registry_remembers example_backend \<and>
   (case construct ClientWrapper example_backend example_options (initial_state (0, [])) of
      Inl e \<Rightarrow> False
    | Inr s1 \<Rightarrow>
        registered ClientGroup s1 \<and> registered PublishGroup s1 \<and>
        allocs s1 =
          [''micro_request_total'', ''micro_latency_microseconds'',
           ''micro_request_duration_seconds'', ''micro_publish_message_total'',
           ''micro_publish_message_latency_microseconds'',
           ''micro_publish_message_duration_seconds''] \<and>
        world s1 =
          (0, [''micro_request_total'', ''micro_latency_microseconds'',
               ''micro_request_duration_seconds'', ''micro_publish_message_total'',
               ''micro_publish_message_latency_microseconds'',
               ''micro_publish_message_duration_seconds'']) \<and>
        construct ClientWrapper example_backend [] s1 = Inr s1) \<and>
   (case register_metrics ServerGroup example_backend Background (initial_state (0, [])) of
      Inl e \<Rightarrow> False
    | Inr s1 \<Rightarrow> register_metrics ServerGroup example_backend (Derived 1) s1 = Inr s1)"
proof -
  let ?s = "initial_state (0, []) :: (real, nat \<times> string list) state"
  obtain s1 where 1: "construct ClientWrapper example_backend example_options ?s = Inr s1"
    by (simp add: construct_eq example_backend_registers del: register_metrics.simps construct.simps)
  obtain s3 where 3: "register_metrics ServerGroup example_backend Background ?s = Inr s3"
    by (simp add: example_backend_registers del: register_metrics.simps)
  note t = registration_at_construction_is_idempotent[where B = example_backend
      and k = ClientWrapper and opts = example_options and s = ?s and ?s1.0 = s1 and opts' = "[]"]
  note u = registration_at_construction_is_idempotent[where B = example_backend
      and g = ServerGroup and c = Background and s = ?s and ?s1.0 = s3 and c' = "Derived 1"]
  note t1 = t[THEN conjunct1, rule_format, OF 1]
  from t1[THEN conjunct2] example_backend_remembers
  have a: "registered ClientGroup s1 \<and> registered PublishGroup s1 \<and>
        construct ClientWrapper example_backend [] s1 = Inr s1"
    by (simp del: register_metrics.simps construct.simps)
  from t1[THEN conjunct1]
  have e: "s1 = after_registration example_backend PublishGroup
      (after_registration example_backend ClientGroup ?s)"
    by simp
  have al: "allocs s1 =
          [''micro_request_total'', ''micro_latency_microseconds'',
           ''micro_request_duration_seconds'', ''micro_publish_message_total'',
           ''micro_publish_message_latency_microseconds'',
           ''micro_publish_message_duration_seconds'']"
    unfolding e by (rule after_registration_example(1))
  have wo: "world s1 =
          (0, [''micro_request_total'', ''micro_latency_microseconds'',
               ''micro_request_duration_seconds'', ''micro_publish_message_total'',
               ''micro_publish_message_latency_microseconds'',
               ''micro_publish_message_duration_seconds''])"
    unfolding e by (rule after_registration_example(2))
  from u 3 example_backend_remembers
  have b: "register_metrics ServerGroup example_backend (Derived 1) s3 = Inr s3"
    by (simp del: register_metrics.simps construct.simps)
  from a b al wo example_backend_remembers show ?thesis
    unfolding 1 3 by (simp del: register_metrics.simps construct.simps)
qed


text \<open>
  C7 (as amended): when constructors run concurrently, in whatever way their steps
  interleave, every metric family object is constructed at most once, and exactly once
  for each family of a group as soon as one constructor of that group has returned.
  This is achieved by a single null check made while the shared mutex is held: the order
  of steps is lock, check-null, construct, register, unlock; a goroutine that is past
  \<^verbatim>\<open>mu.Lock()\<close> and before \<^verbatim>\<open>mu.Unlock()\<close> is the holder of the mutex, so there is
  at most one such goroutine, and a goroutine that is about to construct an object still
  finds the variable nil.
\<close>

theorem one_construction_under_every_interleaving:
  assumes "sys = run B schedule (start ks cs (initial_state w))"
  shows "distinct (allocs (shared sys)) \<and>
         (\<forall>x. count_list (allocs (shared sys)) (''micro_'' @ family_suffix x) =
              (if vars (shared sys) x = None then 0 else 1)) \<and>
         (\<forall>t k g i. ks t = Some k \<and> g \<in> set (groups_of k) \<and> queue (threads sys t) = [] \<longrightarrow>
              count_list (allocs (shared sys)) (''micro_'' @ family_suffix (slot_var g i)) = 1) \<and>
         (\<forall>t. in_critical_section sys t \<longrightarrow> mu sys = Some t) \<and>
         (\<forall>t t'. in_critical_section sys t \<and> in_critical_section sys t' \<longrightarrow> t = t') \<and>
         (\<forall>t g rest i. queue (threads sys t) = g # rest \<and> point (threads sys t) = AtNew i \<longrightarrow>
              vars (shared sys) (slot_var g i) = None)"
proof -
  have inv: "invariant ks sys"
    unfolding assms by (intro invariant_run invariant_start consistent_initial_state)
  then have c: "consistent (shared sys)" and l: "lock_inv sys" and p: "points_inv sys"
    and d: "done_inv ks sys"
    by (simp_all add: invariant_def)
  have n: "family_name (shared sys) x = ''micro_'' @ family_suffix x" for x
    unfolding assms family_name_def prefix_run by (simp add: start_def initial_state_def)
  from c have 1: "distinct (allocs (shared sys))" by (simp add: consistent_def)
  have 2: "count_list (allocs (shared sys)) (''micro_'' @ family_suffix x) =
              (if vars (shared sys) x = None then 0 else 1)" for x
    using consistentD[OF c, of x] by (simp add: count_list_distinct[OF 1] n)
  have 3: "count_list (allocs (shared sys)) (''micro_'' @ family_suffix (slot_var g i)) = 1"
    if "ks t = Some k \<and> g \<in> set (groups_of k) \<and> queue (threads sys t) = []" for t k g i
  proof -
    from that have "registered g (shared sys)" using done_invD[OF d] by blast
    then have "vars (shared sys) (slot_var g i) \<noteq> None" by (simp add: registered_slots)
    with 2[of "slot_var g i"] show ?thesis by auto
  qed
  have 4: "mu sys = Some t" if "in_critical_section sys t" for t
    using l that by (rule lock_invD)
  have 5: "t = t'" if "in_critical_section sys t \<and> in_critical_section sys t'" for t t'
    using 4[of t] 4[of t'] that by simp
  have 6: "vars (shared sys) (slot_var g i) = None"
    if "queue (threads sys t) = g # rest \<and> point (threads sys t) = AtNew i" for t g rest i
    using points_invD[OF p, of t g rest] that by simp
  from 1 2 3 4 5 6 show ?thesis by blast
qed

theorem one_construction_under_every_interleaving_witness:
  "allocs (shared (run example_backend example_schedule example_start)) =
     [''micro_server_request_total'', ''micro_server_latency_microseconds'',
      ''micro_server_request_duration_seconds''] \<and>
   queue (threads (run example_backend example_schedule example_start) 0) = [] \<and>
   queue (threads (run example_backend example_schedule example_start) 1) = [] \<and>
   distinct (allocs (shared (run example_backend example_schedule example_start))) \<and>
   count_list (allocs (shared (run example_backend example_schedule example_start)))
     (''micro_'' @ family_suffix (slot_var ServerGroup OpsCounterSlot)) = 1"
proof -
  have h: "run example_backend example_schedule example_start =
      run example_backend example_schedule
        (start two_handler_constructors (\<lambda>t. Background) (initial_state (0, [])))"
    by (simp only: example_start_def)
  have k: "two_handler_constructors 0 = Some HandlerWrapper \<and>
      ServerGroup \<in> set (groups_of HandlerWrapper) \<and>
      queue (threads (run example_backend example_schedule example_start) 0) = []"
    by (simp add: two_handler_constructors_def example_run)
  from one_construction_under_every_interleaving[OF h] k
  have "distinct (allocs (shared (run example_backend example_schedule example_start)))"
    and "count_list (allocs (shared (run example_backend example_schedule example_start)))
      (''micro_'' @ family_suffix (slot_var ServerGroup OpsCounterSlot)) = 1"
    by blast+
  then show ?thesis by (simp only: example_run simp_thms)
qed

text \<open>
  C7, as it is stated, names the steps "check-null, lock, check-null-again, construct,
  unlock".  A goroutine that constructs a handler wrapper alone, from the initial state,
  takes its steps in the order below: the first is the lock, and no null check comes
  before it.
\<close>

theorem steps_are_not_double_checked_locking:
  "trace example_backend (replicate 12 0) example_start =
     [Lock,
      CheckNull serverOpsCounter, Construct serverOpsCounter,
      CheckNull serverTimeCounterSummary, Construct serverTimeCounterSummary,
      CheckNull serverTimeCounterHistogram, Construct serverTimeCounterHistogram,
      Collect, CallRegister, CallRegister, CallRegister, Unlock] \<and>
   filter (\<lambda>a. a \<in> set (spec_double_checked_locking serverOpsCounter))
     (trace example_backend (replicate 12 0) example_start) =
     [Lock, CheckNull serverOpsCounter, Construct serverOpsCounter, Unlock] \<and>
   filter (\<lambda>a. a \<in> set (spec_double_checked_locking serverOpsCounter))
     (trace example_backend (replicate 12 0) example_start) \<noteq>
     spec_double_checked_locking serverOpsCounter"
proof -
  have t: "trace example_backend (replicate 12 0) example_start =
     [Lock,
      CheckNull serverOpsCounter, Construct serverOpsCounter,
      CheckNull serverTimeCounterSummary, Construct serverTimeCounterSummary,
      CheckNull serverTimeCounterHistogram, Construct serverTimeCounterHistogram,
      Collect, CallRegister, CallRegister, CallRegister, Unlock]"
    by (simp add: example_start_def start_def two_handler_constructors_def next_action_def
          step_def goto_def initial_state_def example_backend_def collectors_def assign_new_def
          opts_Name_new_family numeral_eq_Suc)
  show ?thesis
    unfolding t by (simp add: spec_double_checked_locking_def)
qed


text \<open>
  C8: the endpoint label value of each operation.  Whatever a decorated operation
  records, it records under the label tuple (name, version, id, endpoint), with a status
  appended for the counter, and under no other, where the endpoint is the service name,
  a dot and the endpoint name of the request for \<^verbatim>\<open>CallFunc\<close>, \<^verbatim>\<open>Call\<close> and \<^verbatim>\<open>Stream\<close>, the
  endpoint name of the request for a handler, and the topic of the message for
  \<^verbatim>\<open>Publish\<close> and for a subscriber.  When the wrapped operation has returned, the metric
  variables are set and the label values are valid UTF-8, the counter, the summary and
  the histogram have each changed under exactly that tuple.
\<close>

theorem endpoint_label_value:
  "(callFunc w = Some fn \<and> fn c addr (Some req) rsp copts s = (r, s1) \<longrightarrow>
      recorded_at_most s1 (snd (CallFunc B w c addr (Some req) rsp copts s)) ClientGroup
        [Name (options w), Version (options w), ID (options w), Service req @ ''.'' @ Endpoint req] \<and>
      (r = Return err \<and> registered ClientGroup s1 \<and>
       list_all ValidString
         [Name (options w), Version (options w), ID (options w), Service req @ ''.'' @ Endpoint req] \<longrightarrow>
         recorded_under s1 (snd (CallFunc B w c addr (Some req) rsp copts s)) ClientGroup
           [Name (options w), Version (options w), ID (options w), Service req @ ''.'' @ Endpoint req]
           (if err = None then ''success'' else ''failure''))) \<and>
   (Client w = Some cl \<and> client_Call cl c (Some req) rsp opts s = (r, s1) \<longrightarrow>
      recorded_at_most s1 (snd (Call B w c (Some req) rsp opts s)) ClientGroup
        [Name (options w), Version (options w), ID (options w), Service req @ ''.'' @ Endpoint req] \<and>
      (r = Return err \<and> registered ClientGroup s1 \<and>
       list_all ValidString
         [Name (options w), Version (options w), ID (options w), Service req @ ''.'' @ Endpoint req] \<longrightarrow>
         recorded_under s1 (snd (Call B w c (Some req) rsp opts s)) ClientGroup
           [Name (options w), Version (options w), ID (options w), Service req @ ''.'' @ Endpoint req]
           (if err = None then ''success'' else ''failure''))) \<and>
   (Client w = Some cl \<and> client_Stream cl c (Some req) opts s = (rs, s1) \<longrightarrow>
      recorded_at_most s1 (snd (Stream B w c (Some req) opts s)) ClientGroup
        [Name (options w), Version (options w), ID (options w), Service req @ ''.'' @ Endpoint req] \<and>
      (rs = Return (st, err) \<and> registered ClientGroup s1 \<and>
       list_all ValidString
         [Name (options w), Version (options w), ID (options w), Service req @ ''.'' @ Endpoint req] \<longrightarrow>
         recorded_under s1 (snd (Stream B w c (Some req) opts s)) ClientGroup
           [Name (options w), Version (options w), ID (options w), Service req @ ''.'' @ Endpoint req]
           (if err = None then ''success'' else ''failure''))) \<and>
   (Client w = Some cl \<and> client_Publish cl c (Some p) popts s = (r, s1) \<longrightarrow>
      recorded_at_most s1 (snd (Publish B w c (Some p) popts s)) PublishGroup
        [Name (options w), Version (options w), ID (options w), Topic p] \<and>
      (r = Return err \<and> registered PublishGroup s1 \<and>
       list_all ValidString
         [Name (options w), Version (options w), ID (options w), Topic p] \<longrightarrow>
         recorded_under s1 (snd (Publish B w c (Some p) popts s)) PublishGroup
           [Name (options w), Version (options w), ID (options w), Topic p]
           (if err = None then ''success'' else ''failure''))) \<and>
   (hf c (Some req) rsp s = (r, s1) \<longrightarrow>
      recorded_at_most s1 (snd (HandlerFunc B w (Some hf) c (Some req) rsp s)) ServerGroup
        [Name (options w), Version (options w), ID (options w), Endpoint req] \<and>
      (r = Return err \<and> registered ServerGroup s1 \<and>
       list_all ValidString
         [Name (options w), Version (options w), ID (options w), Endpoint req] \<longrightarrow>
         recorded_under s1 (snd (HandlerFunc B w (Some hf) c (Some req) rsp s)) ServerGroup
           [Name (options w), Version (options w), ID (options w), Endpoint req]
           (if err = None then ''success'' else ''failure''))) \<and>
   (sf c (Some msg) s = (r, s1) \<longrightarrow>
      recorded_at_most s1 (snd (SubscriberFunc B w (Some sf) c (Some msg) s)) SubscribeGroup
        [Name (options w), Version (options w), ID (options w), Topic msg] \<and>
      (r = Return err \<and> registered SubscribeGroup s1 \<and>
       list_all ValidString
         [Name (options w), Version (options w), ID (options w), Topic msg] \<longrightarrow>
         recorded_under s1 (snd (SubscriberFunc B w (Some sf) c (Some msg) s)) SubscribeGroup
           [Name (options w), Version (options w), ID (options w), Topic msg]
           (if err = None then ''success'' else ''failure'')))"
  apply (intro conjI impI; (elim conjE)?)
  subgoal by (rule CallFunc_recorded(1))
  subgoal by (rule CallFunc_recorded(2))
  subgoal by (rule Call_recorded(1))
  subgoal by (rule Call_recorded(2))
  subgoal by (rule Stream_recorded(1))
  subgoal by (rule Stream_recorded(2))
  subgoal by (rule Publish_recorded(1))
  subgoal by (rule Publish_recorded(2))
  subgoal by (rule HandlerFunc_recorded(1))
  subgoal by (rule HandlerFunc_recorded(2))
  subgoal by (rule SubscriberFunc_recorded(1))
  subgoal by (rule SubscriberFunc_recorded(2))
  done

theorem endpoint_label_value_witness:
  "(callFunc failing_wrapper = Some (\<lambda>c addr req rsp opts. failure) \<and>
    failure all_ready_state = (Return (Some ''unavailable''), all_ready_state) \<and>
    registered ClientGroup all_ready_state \<and>
    list_all ValidString [''svc'', ''v1'', ''i1'', ''Greeter.Hello''] \<and>
    recorded_under all_ready_state
      (snd (CallFunc example_backend failing_wrapper Background ''10.0.0.1:8080'' (Some example_request) 0 0
         all_ready_state))
      ClientGroup [''svc'', ''v1'', ''i1'', ''Greeter.Hello''] ''failure'') \<and>
   (recorded_under all_ready_state
      (snd (Call example_backend failing_wrapper Background (Some example_request) 0 [] all_ready_state))
      ClientGroup [''svc'', ''v1'', ''i1'', ''Greeter.Hello''] ''failure'') \<and>
   (recorded_under all_ready_state
      (snd (Stream example_backend failing_wrapper Background (Some example_request) [] all_ready_state))
      ClientGroup [''svc'', ''v1'', ''i1'', ''Greeter.Hello''] ''failure'') \<and>
   (registered PublishGroup all_ready_state \<and>
    list_all ValidString [''svc'', ''v1'', ''i1'', ''events''] \<and>
    recorded_under all_ready_state
      (snd (Publish example_backend failing_wrapper Background (Some example_message) [] all_ready_state))
      PublishGroup [''svc'', ''v1'', ''i1'', ''events''] ''failure'') \<and>
   (registered ServerGroup all_ready_state \<and>
    list_all ValidString [''svc'', ''v1'', ''i1'', ''Hello''] \<and>
    recorded_under all_ready_state
      (snd (HandlerFunc example_backend failing_wrapper (Some (\<lambda>c req rsp. failure)) Background
         (Some example_request) 0 all_ready_state))
      ServerGroup [''svc'', ''v1'', ''i1'', ''Hello''] ''failure'') \<and>
   (registered SubscribeGroup all_ready_state \<and>
    recorded_under all_ready_state
      (snd (SubscriberFunc example_backend failing_wrapper (Some (\<lambda>c msg. failure)) Background
         (Some example_message) all_ready_state))
      SubscribeGroup [''svc'', ''v1'', ''i1'', ''events''] ''failure'') \<and>
   recorded_at_most all_ready_state
     (snd (Publish example_backend failing_wrapper Background (Some malformed_message) [] all_ready_state))
     PublishGroup [''svc'', ''v1'', ''i1'', [CHR 0xFF]]"
proof -
  have f: "failure all_ready_state = (Return (Some ''unavailable''), all_ready_state)"
    by (simp add: failure_def)
  note r = registered_all_ready_state
  have v: "list_all ValidString [''svc'', ''v1'', ''i1'', ''Greeter.Hello'']"
    "list_all ValidString [''svc'', ''v1'', ''i1'', ''events'']"
    "list_all ValidString [''svc'', ''v1'', ''i1'', ''Hello'']"
    by (simp_all add: ValidString_examples del: ValidString.simps)
  note t = endpoint_label_value[where w = failing_wrapper and s = all_ready_state
      and ?s1.0 = all_ready_state and err = "Some ''unavailable''" and B = example_backend
      and c = Background and addr = "''10.0.0.1:8080''" and req = example_request and rsp = 0
      and copts = 0 and opts = "[]" and popts = "[]" and p = example_message
      and msg = example_message and st = 7
      and r = "Return (Some ''unavailable'')" and rs = "Return (7, Some ''unavailable'')"
      and fn = "\<lambda>c addr req rsp opts. failure"
      and hf = "\<lambda>c req rsp. failure" and sf = "\<lambda>c msg. failure"
      and cl = "\<lparr>client_Call = (\<lambda>c req rsp opts. failure),
           client_Stream = (\<lambda>c req opts s. (Return (7, Some ''unavailable''), s)),
           client_Publish = (\<lambda>c p opts. failure)\<rparr>"]
  note u = endpoint_label_value[where w = failing_wrapper and s = all_ready_state
      and ?s1.0 = all_ready_state and B = example_backend
      and c = Background and popts = "[]" and p = malformed_message
      and r = "Return (Some ''unavailable'')"
      and cl = "\<lparr>client_Call = (\<lambda>c req rsp opts. failure),
           client_Stream = (\<lambda>c req opts s. (Return (7, Some ''unavailable''), s)),
           client_Publish = (\<lambda>c p opts. failure)\<rparr>"]
  from u f have m: "recorded_at_most all_ready_state
     (snd (Publish example_backend failing_wrapper Background (Some malformed_message) [] all_ready_state))
     PublishGroup [''svc'', ''v1'', ''i1'', [CHR 0xFF]]"
    by (simp add: failing_wrapper_simps malformed_message_def del: ValidString.simps)
  from t f r v m show ?thesis
    by (simp add: failing_wrapper_simps example_request_def example_message_def
          del: ValidString.simps)
qed


text \<open>
  C9: the configuration of a wrapper.  Without options it has the empty string as name,
  version and id and the background context.  Each option constructor sets the field it
  names and no other; the options are applied in the order given.  The configuration
  built from the options is the one the returned wrapper holds: the struct that the
  closure of \<^verbatim>\<open>NewClientWrapper\<close> builds has it as its \<^verbatim>\<open>options\<close>, and the functions the
  other constructors return are the methods of a wrapper that has it.
\<close>

theorem constructor_configuration:
  "apply_options [] = \<lparr>Name = '''', Version = '''', ID = '''', Context = Background\<rparr> \<and>
   apply_options (opts @ [opt]) = opt (apply_options opts) \<and>
   ServiceName n cfg = cfg\<lparr>Name := n\<rparr> \<and>
   ServiceVersion v cfg = cfg\<lparr>Version := v\<rparr> \<and>
   ServiceID i cfg = cfg\<lparr>ID := i\<rparr> \<and>
   Context_option c cfg = cfg\<lparr>Context := c\<rparr> \<and>
   (NewClientWrapper B opts s = Inr (mk, s') \<longrightarrow>
      mk = (\<lambda>cl. \<lparr>options = apply_options opts, callFunc = None, Client = cl\<rparr>)) \<and>
   (NewCallWrapper B opts s = Inr (dc, s') \<longrightarrow>
      dc = (\<lambda>fn. CallFunc B \<lparr>options = apply_options opts, callFunc = fn, Client = None\<rparr>)) \<and>
   (NewHandlerWrapper B opts s = Inr (dh, s') \<longrightarrow>
      dh = HandlerFunc B \<lparr>options = apply_options opts, callFunc = None, Client = None\<rparr>) \<and>
   (NewSubscriberWrapper B opts s = Inr (ds, s') \<longrightarrow>
      ds = SubscriberFunc B \<lparr>options = apply_options opts, callFunc = None, Client = None\<rparr>)"
  by (auto simp: apply_options_def ServiceName_def ServiceVersion_def ServiceID_def
        Context_option_def NewClientWrapper_def NewCallWrapper_def NewHandlerWrapper_def
        NewSubscriberWrapper_def Let_def split: sum.splits)


theorem constructor_configuration_witness:
  "(case NewClientWrapper example_backend example_options (initial_state (0, [])) of
      Inl e \<Rightarrow> False
    | Inr (mk, s') \<Rightarrow>
        options (mk None) = \<lparr>Name = ''svc'', Version = ''v1'', ID = ''i1'', Context = Background\<rparr>) \<and>
   (case NewCallWrapper example_backend [] (initial_state (0, [])) of
      Inl e \<Rightarrow> False
    | Inr (dc, s') \<Rightarrow>
        dc = (\<lambda>fn. CallFunc example_backend
                \<lparr>options = \<lparr>Name = '''', Version = '''', ID = '''', Context = Background\<rparr>,
                 callFunc = fn, Client = None\<rparr>)) \<and>
   (case NewHandlerWrapper example_backend [Context_option (Derived 3)] (initial_state (0, [])) of
      Inl e \<Rightarrow> False
    | Inr (dh, s') \<Rightarrow>
        dh = HandlerFunc example_backend
               \<lparr>options = \<lparr>Name = '''', Version = '''', ID = '''', Context = Derived 3\<rparr>,
                callFunc = None, Client = None\<rparr>) \<and>
   (case NewSubscriberWrapper example_backend [ServiceName ''a'', ServiceName ''b'']
           (initial_state (0, [])) of
      Inl e \<Rightarrow> False
    | Inr (ds, s') \<Rightarrow>
        ds = SubscriberFunc example_backend
               \<lparr>options = \<lparr>Name = ''b'', Version = '''', ID = '''', Context = Background\<rparr>,
                callFunc = None, Client = None\<rparr>)"
proof -
  let ?s = "initial_state (0, []) :: (real, nat \<times> string list) state"
  obtain mk s1 where 1: "NewClientWrapper example_backend example_options ?s = Inr (mk, s1)"
    by (simp add: NewClientWrapper_eq example_backend_registers del: register_metrics.simps)
  obtain dc s2 where 2: "NewCallWrapper example_backend [] ?s = Inr (dc, s2)"
    by (simp add: NewCallWrapper_eq example_backend_registers del: register_metrics.simps)
  obtain dh s3 where 3: "NewHandlerWrapper example_backend [Context_option (Derived 3)] ?s = Inr (dh, s3)"
    by (simp add: NewHandlerWrapper_eq example_backend_registers del: register_metrics.simps)
  obtain ds s4 where 4: "NewSubscriberWrapper example_backend [ServiceName ''a'', ServiceName ''b''] ?s = Inr (ds, s4)"
    by (simp add: NewSubscriberWrapper_eq example_backend_registers del: register_metrics.simps)
  from constructor_configuration[where B = example_backend and opts = example_options and s = ?s
      and mk = mk and s' = s1]
  have a: "mk = (\<lambda>cl. \<lparr>options = apply_options example_options, callFunc = None, Client = cl\<rparr>)"
    using 1 by simp
  from constructor_configuration[where B = example_backend and opts = "[]" and s = ?s
      and dc = dc and s' = s2]
  have b: "dc = (\<lambda>fn. CallFunc example_backend \<lparr>options = apply_options [], callFunc = fn, Client = None\<rparr>)"
    using 2 by simp
  from constructor_configuration[where B = example_backend and opts = "[Context_option (Derived 3)]"
      and s = ?s and dh = dh and s' = s3]
  have c: "dh = HandlerFunc example_backend
      \<lparr>options = apply_options [Context_option (Derived 3)], callFunc = None, Client = None\<rparr>"
    using 3 by simp
  from constructor_configuration[where B = example_backend
      and opts = "[ServiceName ''a'', ServiceName ''b'']" and s = ?s and ds = ds and s' = s4]
  have d: "ds = SubscriberFunc example_backend
      \<lparr>options = apply_options [ServiceName ''a'', ServiceName ''b''], callFunc = None, Client = None\<rparr>"
    using 4 by simp
  show ?thesis
    unfolding 1 2 3 4 a b c d
    by (simp add: apply_options_def example_options_def ServiceName_def ServiceVersion_def
          ServiceID_def Context_option_def)
qed


text \<open>
  C10: \<^verbatim>\<open>NewClientWrapper\<close> registers the client families and the publish families: when
  it returns, the metric variables of both groups are set and the registry has been
  handed the three client collectors and then the three publish collectors.
  \<^verbatim>\<open>NewCallWrapper\<close> registers the client families only: the client variables are set, the
  publish variables are what they were, and the registry has been handed the three
  client collectors and nothing else.
\<close>

theorem client_wrapper_registers_publish_families:
  "(NewClientWrapper B opts s = Inr (mk, s') \<longrightarrow>
      registered ClientGroup s' \<and> registered PublishGroup s' \<and>
      world s' =
        registrations B (collectors ClientGroup s' @ collectors PublishGroup s') (world s)) \<and>
   (NewCallWrapper B opts s = Inr (dc, s') \<longrightarrow>
      registered ClientGroup s' \<and>
      collectors PublishGroup s' = collectors PublishGroup s \<and>
      world s' = registrations B (collectors ClientGroup s') (world s))"
proof (intro conjI impI)
  assume a: "NewClientWrapper B opts s = Inr (mk, s')"
  then obtain s1 where
    1: "register_metrics ClientGroup B (Context (apply_options opts)) s = Inr s1" and
    2: "register_metrics PublishGroup B (Context (apply_options opts)) s1 = Inr s'"
    using NewClientWrapper_Inr by blast
  have r1: "registered ClientGroup s1" using 1 by (rule register_metrics_registered)
  show "registered ClientGroup s'" using 2 r1 by (rule register_metrics_keeps_registered)
  show "registered PublishGroup s'" using 2 by (rule register_metrics_registered)
  have e1: "s1 = (init_group ClientGroup s)
      \<lparr>world := registrations B (collectors ClientGroup (init_group ClientGroup s)) (world s)\<rparr>"
    using 1 by (rule register_metrics_Inr(1))
  have e2: "s' = (init_group PublishGroup s1)
      \<lparr>world := registrations B (collectors PublishGroup (init_group PublishGroup s1)) (world s1)\<rparr>"
    using 2 by (rule register_metrics_Inr(1))
  have c1: "collectors ClientGroup s' = collectors ClientGroup (init_group ClientGroup s)"
    by (subst e2, subst e1)
       (simp add: collectors_world_update collectors_init_group_other)
  have c2: "collectors PublishGroup s' = collectors PublishGroup (init_group PublishGroup s1)"
    by (subst e2) (simp add: collectors_world_update)
  have w1: "world s1 = registrations B (collectors ClientGroup (init_group ClientGroup s)) (world s)"
    by (subst e1) simp
  have w2: "world s' = registrations B (collectors PublishGroup (init_group PublishGroup s1)) (world s1)"
    by (subst e2) simp
  show "world s' = registrations B (collectors ClientGroup s' @ collectors PublishGroup s') (world s)"
    by (simp only: registrations_append c1 c2 w2 w1)
next
  assume "NewCallWrapper B opts s = Inr (dc, s')"
  then have 1: "register_metrics ClientGroup B (Context (apply_options opts)) s = Inr s'"
    by (rule NewCallWrapper_Inr)
  show "registered ClientGroup s'" using 1 by (rule register_metrics_registered)
  have e1: "s' = (init_group ClientGroup s)
      \<lparr>world := registrations B (collectors ClientGroup (init_group ClientGroup s)) (world s)\<rparr>"
    using 1 by (rule register_metrics_Inr(1))
  show "collectors PublishGroup s' = collectors PublishGroup s"
    by (subst e1) (simp add: collectors_world_update collectors_init_group_other)
  show "world s' = registrations B (collectors ClientGroup s') (world s)"
    by (subst (1 2) e1) (simp add: collectors_world_update)
qed


theorem client_wrapper_registers_publish_families_witness:
  "(case NewClientWrapper example_backend [] (initial_state (0, [])) of
      Inl e \<Rightarrow> False
    | Inr (mk, s') \<Rightarrow>
        registered ClientGroup s' \<and> registered PublishGroup s' \<and>
        world s' =
          (0, [''micro_request_total'', ''micro_latency_microseconds'',
               ''micro_request_duration_seconds'', ''micro_publish_message_total'',
               ''micro_publish_message_latency_microseconds'',
               ''micro_publish_message_duration_seconds''])) \<and>
   (case NewCallWrapper example_backend [] (initial_state (0, [])) of
      Inl e \<Rightarrow> False
    | Inr (dc, s') \<Rightarrow>
        registered ClientGroup s' \<and>
        collectors PublishGroup s' = [None, None, None] \<and>
        world s' =
          (0, [''micro_request_total'', ''micro_latency_microseconds'',
               ''micro_request_duration_seconds'']))"
proof -
  let ?s = "initial_state (0, []) :: (real, nat \<times> string list) state"
  obtain mk s1 where 1: "NewClientWrapper example_backend [] ?s = Inr (mk, s1)"
    by (simp add: NewClientWrapper_eq example_backend_registers del: register_metrics.simps)
  obtain dc s2 where 2: "NewCallWrapper example_backend [] ?s = Inr (dc, s2)"
    by (simp add: NewCallWrapper_eq example_backend_registers del: register_metrics.simps)
  note t1 = client_wrapper_registers_publish_families[where B = example_backend and opts = "[]"
      and s = ?s and mk = mk and s' = s1, THEN conjunct1, rule_format, OF 1]
  note t2 = client_wrapper_registers_publish_families[where B = example_backend and opts = "[]"
      and s = ?s and dc = dc and s' = s2, THEN conjunct2, rule_format, OF 2]
  have v1: "vars s1 = vars (init_group PublishGroup (init_group ClientGroup ?s))"
    using 1
    by (auto simp: NewClientWrapper_eq example_backend_registers init_group_world_update
          simp del: register_metrics.simps)
  have v2: "vars s2 = vars (init_group ClientGroup ?s)"
    using 2
    by (auto simp: NewCallWrapper_eq example_backend_registers simp del: register_metrics.simps)
  have c1: "collectors ClientGroup s1 @ collectors PublishGroup s1 =
      collectors ClientGroup (init_group PublishGroup (init_group ClientGroup ?s)) @
      collectors PublishGroup (init_group PublishGroup (init_group ClientGroup ?s))"
    by (simp add: collectors_def v1)
  have c2: "collectors ClientGroup s2 = collectors ClientGroup (init_group ClientGroup ?s)"
    "collectors PublishGroup s2 = collectors PublishGroup (init_group ClientGroup ?s)"
    by (simp_all add: collectors_def v2)
  have w1: "world s1 =
          (0, [''micro_request_total'', ''micro_latency_microseconds'',
               ''micro_request_duration_seconds'', ''micro_publish_message_total'',
               ''micro_publish_message_latency_microseconds'',
               ''micro_publish_message_duration_seconds''])"
    using t1 unfolding c1
    by (simp add: collectors_def init_group_def init_var_simps initial_state_def
          example_backend_def opts_Name_new_family)
  have w2: "world s2 =
          (0, [''micro_request_total'', ''micro_latency_microseconds'',
               ''micro_request_duration_seconds''])"
    using t2 unfolding c2
    by (simp add: collectors_def init_group_def init_var_simps initial_state_def
          example_backend_def opts_Name_new_family)
  have p2: "collectors PublishGroup s2 = [None, None, None]"
    unfolding c2 by (simp add: collectors_def init_group_def init_var_simps initial_state_def)
  from t1 t2 w1 w2 p2 show ?thesis
    unfolding 1 2 by simp
qed

end
